theory Spec2Isabelle
  imports Main "HOL-Library.Multiset"
begin

section \<open>Data model\<close>

text \<open>
  The call signalling core of the chat gateway: the presence registry
  (\<open>ChatGateway.clients\<close>), the per-call socket routing map and the ring timers of
  \<open>CallService\<close>, the call state machine (\<open>initiateCall\<close>, \<open>acceptCall\<close>,
  \<open>rejectCall\<close>, \<open>endCall\<close>, the ring-timeout callback) and the WebRTC relay of
  \<open>WebRTCService\<close>. Identifiers are JavaScript strings; a value that may be
  \<open>undefined\<close> or \<open>null\<close> is an option. The handlers are asynchronous: each is
  split at its \<open>await\<close>s, and the steps of different handlers interleave.
\<close>

type_synonym userId = string
type_synonym socketId = string
type_synonym callId = string
type_synonym conversationId = string

text \<open>Truthiness of a possibly absent JavaScript string (\<open>if (x)\<close>, \<open>!x\<close>):
  \<open>undefined\<close>, \<open>null\<close> and the empty string are falsy.\<close>

fun truthy :: "string option \<Rightarrow> bool" where
  "truthy None = False"
| "truthy (Some str) = (str \<noteq> [])"

datatype CallStatus = INITIATED | ONGOING | ENDED | MISSED

datatype CallParticipantStatus = P_JOINED | P_MISSED

datatype CallType = AUDIO | VIDEO

datatype ConversationParticipantType = ADMIN_GROUP | USER

text \<open>A socket.io connection: its id and the \<open>data.userId\<close> set by \<open>handleConnection\<close>.\<close>

record Socket =
  sid :: socketId
  data_userId :: "userId option"

record CallParticipant =
  p_userId :: "userId option"
  p_status :: CallParticipantStatus
  joinedAt :: "nat option"
  leftAt :: "nat option"

text \<open>A \<open>privateCall\<close> row together with its participant rows
  (\<open>include: { participants: true }\<close>), in row order.\<close>

record PrivateCall =
  call_id :: callId
  call_conversationId :: conversationId
  initiatorId :: userId
  call_type :: CallType
  status :: CallStatus
  startedAt :: "nat option"
  endedAt :: "nat option"
  participants :: "CallParticipant list"

record ConversationParticipant =
  cp_userId :: "userId option"
  cp_type :: ConversationParticipantType

record PrivateConversation =
  conv_id :: conversationId
  conv_participants :: "ConversationParticipant list"

record InitiateCallDto =
  dto_conversationId :: conversationId
  dto_type :: CallType

record CallActionDto =
  dto_callId :: callId

record RTCOfferDto =
  offer_callId :: callId
  offer_sdp :: string
  offer_to :: "socketId option"

record RTCAnswerDto =
  answer_callId :: callId
  answer_sdp :: string
  answer_to :: "socketId option"

record RTCIceCandidateDto =
  cand_callId :: callId
  cand_candidate :: string
  cand_sdpMid :: string
  cand_sdpMLineIndex :: nat
  cand_to :: "socketId option"

datatype EventsEnum =
    ERROR | SUCCESS
  | CALL_INCOMING | CALL_ACCEPT | CALL_MISSED | CALL_END
  | RTC_OFFER | RTC_ANSWER | RTC_ICE_CANDIDATE

text \<open>The object literals passed to \<open>successResponse\<close>.\<close>

datatype payload =
    CallData PrivateCall
  | IncomingData PrivateCall userId
  | CallUserData callId userId
  | CallByData callId userId
  | CallIdData callId
  | SdpData callId string userId
  | CandidateData callId string string nat userId
  | OfferEcho RTCOfferDto
  | AnswerEcho RTCAnswerDto
  | CandidateEcho RTCIceCandidateDto

datatype TResponse =
    successResponse payload "string option"
  | errorResponse string

type_synonym registry = "userId \<rightharpoonup> Socket list"

text \<open>A \<open>NodeJS.Timeout\<close>: when it is due, and whether its callback has started
  (from then on \<open>clearTimeout\<close> no longer stops it).\<close>

record Timeout =
  due :: nat
  fired :: bool

text \<open>
  The process state: the two database tables the core reads and writes, the gateway's
  \<open>clients\<close> map (a \<open>Set\<close> of sockets is a duplicate-free list in insertion order),
  the service's \<open>callSocketMap\<close> and \<open>ringTimeouts\<close>, and the log of everything
  sent through \<open>server.to(id).emit\<close>.
\<close>

record ServerState =
  calls :: "callId \<rightharpoonup> PrivateCall"
  conversations :: "conversationId \<rightharpoonup> PrivateConversation"
  clients :: registry
  callSocketMap :: "callId \<rightharpoonup> (userId \<rightharpoonup> socketId)"
  ringTimeouts :: "callId \<rightharpoonup> Timeout"
  emitted :: "(socketId \<times> EventsEnum \<times> TResponse) list"

section \<open>Presence registry (ChatGateway)\<close>

definition set_add :: "'a \<Rightarrow> 'a list \<Rightarrow> 'a list" where
  "set_add x xs = (if x \<in> set xs then xs else xs @ [x])"

definition set_delete :: "'a \<Rightarrow> 'a list \<Rightarrow> 'a list" where
  "set_delete x xs = removeAll x xs"

definition isOnline :: "registry \<Rightarrow> userId \<Rightarrow> bool" where
  "isOnline r userId = (r userId \<noteq> None)"

definition subscribeClient :: "registry \<Rightarrow> userId \<Rightarrow> Socket \<Rightarrow> registry" where
  "subscribeClient r userId client =
     (let r1 = (if r userId = None then r(userId \<mapsto> []) else r)
      in case r1 userId of
           None \<Rightarrow> r1
         | Some socks \<Rightarrow> r1(userId \<mapsto> set_add client socks))"

definition unsubscribeClient :: "registry \<Rightarrow> userId \<Rightarrow> Socket \<Rightarrow> registry" where
  "unsubscribeClient r userId client =
     (case r userId of
        None \<Rightarrow> r
      | Some socks \<Rightarrow>
          (let set1 = set_delete client socks
           in if length set1 = 0 then r(userId := None) else r(userId \<mapsto> set1)))"

definition getActiveSocketIdsForUser ::
  "registry \<Rightarrow> userId \<Rightarrow> socketId option \<Rightarrow> socketId list" where
  "getActiveSocketIdsForUser r userId excludeSocketId =
     (case r userId of
        None \<Rightarrow> []
      | Some socks \<Rightarrow> map sid (filter (\<lambda>sock. Some (sid sock) \<noteq> excludeSocketId) socks))"

section \<open>Call socket router (CallService)\<close>

definition findTargetSocketForRecipient ::
  "ServerState \<Rightarrow> callId \<Rightarrow> userId \<Rightarrow> socketId option \<Rightarrow> socketId option \<Rightarrow> socketId option" where
  "findTargetSocketForRecipient s callId recipientUserId payloadTo excludeSocketId =
     (let hinted =
            (case payloadTo of
               None \<Rightarrow> None
             | Some h \<Rightarrow>
                 if h \<noteq> [] \<and>
                    h \<in> set (getActiveSocketIdsForUser (clients s) recipientUserId excludeSocketId)
                 then Some h else None)
      in case hinted of
           Some h \<Rightarrow> Some h
         | None \<Rightarrow>
            (let recorded =
                   (case callSocketMap s callId of
                      None \<Rightarrow> None
                    | Some m \<Rightarrow>
                        (case m recipientUserId of
                           None \<Rightarrow> None
                         | Some rec \<Rightarrow>
                             if rec \<noteq> [] \<and> Some rec \<noteq> excludeSocketId then Some rec else None))
             in case recorded of
                  Some rec \<Rightarrow> Some rec
                | None \<Rightarrow>
                   (case getActiveSocketIdsForUser (clients s) recipientUserId excludeSocketId of
                      [] \<Rightarrow> None
                    | a # _ \<Rightarrow> Some a)))"


text \<open>\<open>ensureCallSocketEntry(callId).set(userId, socketId)\<close>: the inner map is created
  when the call has none, then written in place.\<close>

definition ensureCallSocketEntry :: "ServerState \<Rightarrow> callId \<Rightarrow> (userId \<rightharpoonup> socketId) \<times> ServerState" where
  "ensureCallSocketEntry s callId =
     (case callSocketMap s callId of
        None \<Rightarrow> (Map.empty, s\<lparr>callSocketMap := (callSocketMap s)(callId \<mapsto> Map.empty)\<rparr>)
      | Some m \<Rightarrow> (m, s))"

definition setCallSocket :: "ServerState \<Rightarrow> callId \<Rightarrow> userId \<Rightarrow> socketId \<Rightarrow> ServerState" where
  "setCallSocket s callId userId socketId =
     (case ensureCallSocketEntry s callId of
        (m, s1) \<Rightarrow> s1\<lparr>callSocketMap := (callSocketMap s1)(callId \<mapsto> m(userId \<mapsto> socketId))\<rparr>)"

definition dropCallSocketEntry :: "ServerState \<Rightarrow> callId \<Rightarrow> ServerState" where
  "dropCallSocketEntry s callId = s\<lparr>callSocketMap := (callSocketMap s)(callId := None)\<rparr>"

definition clearRingTimeout :: "ServerState \<Rightarrow> callId \<Rightarrow> ServerState" where
  "clearRingTimeout s callId =
     (case ringTimeouts s callId of
        None \<Rightarrow> s
      | Some t \<Rightarrow> s\<lparr>ringTimeouts := (ringTimeouts s)(callId := None)\<rparr>)"

text \<open>\<open>setRingTimeout\<close> at time \<open>now\<close>: any timer of the call is cleared and a new one
  is stored, due at \<open>now + ms\<close>. Its callback is \<open>timerStart\<close> and \<open>resumeCallback\<close>
  below.\<close>

definition setRingTimeout :: "ServerState \<Rightarrow> callId \<Rightarrow> nat \<Rightarrow> nat \<Rightarrow> ServerState" where
  "setRingTimeout s callId ms now =
     (let s1 = clearRingTimeout s callId
      in s1\<lparr>ringTimeouts := (ringTimeouts s1)(callId \<mapsto> \<lparr>due = now + ms, fired = False\<rparr>)\<rparr>)"

section \<open>Emitting (ChatGateway)\<close>

definition emitToSocketId :: "ServerState \<Rightarrow> socketId \<Rightarrow> EventsEnum \<Rightarrow> TResponse \<Rightarrow> ServerState" where
  "emitToSocketId s socketId event pl = s\<lparr>emitted := emitted s @ [(socketId, event, pl)]\<rparr>"

definition emitError :: "ServerState \<Rightarrow> Socket \<Rightarrow> string \<Rightarrow> TResponse \<times> ServerState" where
  "emitError s client message =
     (errorResponse message,
      s\<lparr>emitted := emitted s @ [(sid client, ERROR, errorResponse message)]\<rparr>)"

text \<open>
  Modelled from the spec: the \<open>HandleError\<close> decorator, whose source is not part of the
  files at hand. A persistence failure thrown inside a public operation is caught at
  the operation's boundary and converted to a generic failure response carrying the
  decorator's message; what the operation wrote before the failure stays written.
\<close>

definition handleError :: "string \<Rightarrow> ServerState \<Rightarrow> TResponse \<times> ServerState" where
  "handleError message s = (errorResponse message, s)"

section \<open>Handlers, split at their awaits\<close>

text \<open>
  A handler runs without interruption from one \<open>await\<close> to the next; while it waits
  for the database, other handlers and timer callbacks run. A \<open>task\<close> is a handler
  suspended after a database operation of its own has taken effect, holding the local
  variables it will go on with: the acting user, the call or conversation as it was
  read, the client. Each step below is the code from one such point up to and
  including the next database operation (that code reads only the handler's own
  variables), or up to the handler's return.
\<close>

datatype task =
    InitiateRead Socket InitiateCallDto callId userId "PrivateConversation option"
  | InitiateCreated Socket userId userId PrivateCall
  | AcceptRead Socket CallActionDto userId "PrivateCall option"
  | AcceptJoined Socket CallActionDto userId PrivateCall
  | AcceptStarted Socket CallActionDto userId PrivateCall
  | RejectRead Socket CallActionDto userId "PrivateCall option"
  | RejectMarked Socket CallActionDto userId PrivateCall
  | RejectMissed Socket CallActionDto userId PrivateCall
  | EndUpdated Socket CallActionDto PrivateCall
  | OfferRead Socket RTCOfferDto userId "PrivateCall option"
  | AnswerRead Socket RTCAnswerDto userId "PrivateCall option"
  | CandidateRead Socket RTCIceCandidateDto userId "PrivateCall option"

text \<open>What a step of a handler leaves: the handler suspended again, or its response.\<close>

type_synonym outcome = "(task + TResponse) \<times> ServerState"

definition returned :: "TResponse \<times> ServerState \<Rightarrow> outcome" where
  "returned rs = (Inr (fst rs), snd rs)"

definition suspended :: "task \<Rightarrow> ServerState \<Rightarrow> outcome" where
  "suspended t s = (Inl t, s)"

subsection \<open>Call state machine (CallService)\<close>

text \<open>Notifying one peer: resolve its socket with neither hint nor exclusion and emit
  when the result is truthy.\<close>

definition notifyPeer :: "ServerState \<Rightarrow> callId \<Rightarrow> userId \<Rightarrow> EventsEnum \<Rightarrow> TResponse \<Rightarrow> ServerState" where
  "notifyPeer s callId recipient event pl =
     (let targetSock = findTargetSocketForRecipient s callId recipient None None
      in case targetSock of
           None \<Rightarrow> s
         | Some t \<Rightarrow> if t \<noteq> [] then emitToSocketId s t event pl else s)"

text \<open>\<open>const initiator = call.participants.find((p) => p.userId !== userId);
  if (initiator?.userId) { ... }\<close>\<close>

definition notifyOther ::
  "ServerState \<Rightarrow> PrivateCall \<Rightarrow> userId \<Rightarrow> EventsEnum \<Rightarrow> TResponse \<Rightarrow> ServerState" where
  "notifyOther s call userId event pl =
     (case find (\<lambda>p. p_userId p \<noteq> Some userId) (participants call) of
        None \<Rightarrow> s
      | Some initiator \<Rightarrow>
          (case p_userId initiator of
             None \<Rightarrow> s
           | Some other \<Rightarrow>
               if other \<noteq> [] then notifyPeer s (call_id call) other event pl else s))"

text \<open>\<open>initiateCall\<close>, up to the read of the conversation. The id the database will
  give the call is carried along from here.\<close>

definition initiateStart :: "ServerState \<Rightarrow> Socket \<Rightarrow> InitiateCallDto \<Rightarrow> callId \<Rightarrow> outcome" where
  "initiateStart s client dto newId =
     (case data_userId client of
        None \<Rightarrow> returned (emitError s client ''Unauthorized'')
      | Some callerId \<Rightarrow>
         if callerId = [] then returned (emitError s client ''Unauthorized'')
         else suspended
                (InitiateRead client dto newId callerId (conversations s (dto_conversationId dto)))
                s)"

text \<open>From the conversation to the created call. Creating a row under an id already
  taken violates the primary key, and the exception ends in \<open>HandleError\<close>. Columns the
  code does not write stay unset.\<close>

definition initiateCreate ::
  "ServerState \<Rightarrow> Socket \<Rightarrow> InitiateCallDto \<Rightarrow> callId \<Rightarrow> userId \<Rightarrow>
   PrivateConversation option \<Rightarrow> outcome" where
  "initiateCreate s client dto newId callerId conv =
     (case conv of
        None \<Rightarrow> returned (emitError s client ''Conversation not found'')
      | Some conversation \<Rightarrow>
         (case find (\<lambda>p. cp_userId p = Some callerId \<and> cp_type p = ADMIN_GROUP)
                    (conv_participants conversation) of
            None \<Rightarrow> returned (emitError s client ''Only admins may initiate calls'')
          | Some callerParticipant \<Rightarrow>
             (case find (\<lambda>p. cp_type p = USER \<and> truthy (cp_userId p))
                        (conv_participants conversation) of
                None \<Rightarrow> returned (emitError s client ''No user in conversation to call'')
              | Some userParticipant \<Rightarrow>
                 (case cp_userId userParticipant of
                    None \<Rightarrow> returned (emitError s client ''No user in conversation to call'')
                  | Some targetId \<Rightarrow>
                     if calls s newId \<noteq> None
                     then returned (handleError ''Failed to initiate call'' s)
                     else
                      (let call = \<lparr>call_id = newId,
                                   call_conversationId = dto_conversationId dto,
                                   initiatorId = callerId,
                                   call_type = dto_type dto,
                                   status = INITIATED,
                                   startedAt = None,
                                   endedAt = None,
                                   participants =
                                     [\<lparr>p_userId = Some callerId, p_status = P_JOINED,
                                       joinedAt = None, leftAt = None\<rparr>,
                                      \<lparr>p_userId = Some targetId, p_status = P_MISSED,
                                       joinedAt = None, leftAt = None\<rparr>]\<rparr>
                       in suspended (InitiateCreated client callerId targetId call)
                            (s\<lparr>calls := (calls s)(newId \<mapsto> call)\<rparr>))))))"

text \<open>After the create: the socket mapping, the notification, the ring timer.\<close>

definition initiateFinish ::
  "ServerState \<Rightarrow> Socket \<Rightarrow> userId \<Rightarrow> userId \<Rightarrow> PrivateCall \<Rightarrow> nat \<Rightarrow> TResponse \<times> ServerState" where
  "initiateFinish s client callerId targetId call now =
     (let s2 = s\<lparr>callSocketMap :=
                  (callSocketMap s)(call_id call \<mapsto> [callerId \<mapsto> sid client])\<rparr>;
          s3 = notifyPeer s2 (call_id call) targetId CALL_INCOMING
                 (successResponse (IncomingData call callerId) None);
          s4 = setRingTimeout s3 (call_id call) 30000 now
      in (successResponse (CallData call) (Some ''Call initiated''), s4))"

text \<open>\<open>acceptCall\<close>, up to the read of the call.\<close>

definition acceptStart :: "ServerState \<Rightarrow> Socket \<Rightarrow> CallActionDto \<Rightarrow> outcome" where
  "acceptStart s client dto =
     (case data_userId client of
        None \<Rightarrow> returned (emitError s client ''Unauthorized'')
      | Some userId \<Rightarrow>
         if userId = [] then returned (emitError s client ''Unauthorized'')
         else suspended (AcceptRead client dto userId (calls s (dto_callId dto))) s)"

text \<open>The participant write of \<open>acceptCall\<close>. Whether a row is updated or created is
  decided on the rows as they were read (\<open>seen\<close>); the write lands on the rows of the
  table as they are now. The update goes by the row id of the first row of the user
  that was read; rows are never deleted, keep their user and are added at the end, so
  that row is still the first row of the user.\<close>

fun updateFirst :: "('a \<Rightarrow> bool) \<Rightarrow> ('a \<Rightarrow> 'a) \<Rightarrow> 'a list \<Rightarrow> 'a list" where
  "updateFirst P f [] = []"
| "updateFirst P f (x # xs) = (if P x then f x # xs else x # updateFirst P f xs)"

definition joinParticipant ::
  "userId \<Rightarrow> nat \<Rightarrow> CallParticipant list \<Rightarrow> CallParticipant list \<Rightarrow> CallParticipant list" where
  "joinParticipant userId now seen rows =
     (case find (\<lambda>p. p_userId p = Some userId) seen of
        Some existing \<Rightarrow>
          updateFirst (\<lambda>p. p_userId p = Some userId)
            (\<lambda>p. p\<lparr>p_status := P_JOINED, joinedAt := Some now\<rparr>) rows
      | None \<Rightarrow>
          rows @ [\<lparr>p_userId = Some userId, p_status = P_JOINED,
                   joinedAt = Some now, leftAt = None\<rparr>])"

definition acceptJoin ::
  "ServerState \<Rightarrow> Socket \<Rightarrow> CallActionDto \<Rightarrow> userId \<Rightarrow> PrivateCall option \<Rightarrow> nat \<Rightarrow> outcome" where
  "acceptJoin s client dto userId callRead now =
     (case callRead of
        None \<Rightarrow> returned (emitError s client ''Call not found'')
      | Some call \<Rightarrow>
         (case calls s (dto_callId dto) of
            None \<Rightarrow> returned (handleError ''Failed to accept call'' s)
          | Some row \<Rightarrow>
             suspended (AcceptJoined client dto userId call)
               (s\<lparr>calls := (calls s)(dto_callId dto \<mapsto>
                     row\<lparr>participants :=
                           joinParticipant userId now (participants call) (participants row)\<rparr>)\<rparr>)))"

text \<open>After the status write, or when there is none: the socket mapping, the timer, the
  notification. The call passed on is the one read at the start.\<close>

definition acceptFinish ::
  "ServerState \<Rightarrow> Socket \<Rightarrow> CallActionDto \<Rightarrow> userId \<Rightarrow> PrivateCall \<Rightarrow> TResponse \<times> ServerState" where
  "acceptFinish s client dto userId call =
     (let s2 = setCallSocket s (dto_callId dto) userId (sid client);
          s3 = clearRingTimeout s2 (dto_callId dto);
          s4 = notifyOther s3 call userId CALL_ACCEPT
                 (successResponse (CallUserData (dto_callId dto) userId) None)
      in (successResponse (CallUserData (dto_callId dto) userId) (Some ''Call accepted''), s4))"

text \<open>\<open>if (call.status === CallStatus.INITIATED)\<close> tests the call as it was read at the
  start; the update it guards writes the row as it is now.\<close>

definition acceptOngoing ::
  "ServerState \<Rightarrow> Socket \<Rightarrow> CallActionDto \<Rightarrow> userId \<Rightarrow> PrivateCall \<Rightarrow> nat \<Rightarrow> outcome" where
  "acceptOngoing s client dto userId call now =
     (if status call = INITIATED
      then (case calls s (dto_callId dto) of
              None \<Rightarrow> returned (handleError ''Failed to accept call'' s)
            | Some row \<Rightarrow>
               suspended (AcceptStarted client dto userId call)
                 (s\<lparr>calls := (calls s)(dto_callId dto \<mapsto>
                       row\<lparr>status := ONGOING, startedAt := Some now\<rparr>)\<rparr>))
      else returned (acceptFinish s client dto userId call))"

text \<open>\<open>rejectCall\<close>: the read, the participant write (\<open>updateMany\<close> matches no row when there
  is none and does not throw), the status write, the rest.\<close>

definition rejectStart :: "ServerState \<Rightarrow> Socket \<Rightarrow> CallActionDto \<Rightarrow> outcome" where
  "rejectStart s client dto =
     (case data_userId client of
        None \<Rightarrow> returned (emitError s client ''Unauthorized'')
      | Some userId \<Rightarrow>
         if userId = [] then returned (emitError s client ''Unauthorized'')
         else suspended (RejectRead client dto userId (calls s (dto_callId dto))) s)"

definition rejectMark ::
  "ServerState \<Rightarrow> Socket \<Rightarrow> CallActionDto \<Rightarrow> userId \<Rightarrow> PrivateCall option \<Rightarrow> nat \<Rightarrow> outcome" where
  "rejectMark s client dto userId callRead now =
     (case callRead of
        None \<Rightarrow> returned (emitError s client ''Call not found'')
      | Some call \<Rightarrow>
         suspended (RejectMarked client dto userId call)
           (case calls s (dto_callId dto) of
              None \<Rightarrow> s
            | Some row \<Rightarrow>
               s\<lparr>calls := (calls s)(dto_callId dto \<mapsto>
                    row\<lparr>participants :=
                          map (\<lambda>p. if p_userId p = Some userId
                                   then p\<lparr>p_status := P_MISSED, leftAt := Some now\<rparr>
                                   else p)
                              (participants row)\<rparr>)\<rparr>))"

definition rejectMiss ::
  "ServerState \<Rightarrow> Socket \<Rightarrow> CallActionDto \<Rightarrow> userId \<Rightarrow> PrivateCall \<Rightarrow> nat \<Rightarrow> outcome" where
  "rejectMiss s client dto userId call now =
     (case calls s (dto_callId dto) of
        None \<Rightarrow> returned (handleError ''Failed to reject call'' s)
      | Some row \<Rightarrow>
         suspended (RejectMissed client dto userId call)
           (s\<lparr>calls := (calls s)(dto_callId dto \<mapsto>
                 row\<lparr>status := MISSED, endedAt := Some now\<rparr>)\<rparr>))"

definition rejectFinish ::
  "ServerState \<Rightarrow> Socket \<Rightarrow> CallActionDto \<Rightarrow> userId \<Rightarrow> PrivateCall \<Rightarrow> TResponse \<times> ServerState" where
  "rejectFinish s client dto userId call =
     (let s2 = clearRingTimeout s (dto_callId dto);
          s3 = dropCallSocketEntry s2 (dto_callId dto);
          s4 = notifyOther s3 call userId CALL_MISSED
                 (successResponse (CallByData (dto_callId dto) userId) None)
      in (successResponse (CallUserData (dto_callId dto) userId) (Some ''Call rejected''), s4))"

text \<open>The notification loop of \<open>endCall\<close> over the participants of the updated call.\<close>

fun notifyParticipants :: "ServerState \<Rightarrow> callId \<Rightarrow> CallParticipant list \<Rightarrow> ServerState" where
  "notifyParticipants s callId [] = s"
| "notifyParticipants s callId (p # ps) =
     (case p_userId p of
        None \<Rightarrow> notifyParticipants s callId ps
      | Some u \<Rightarrow>
          if u = [] then notifyParticipants s callId ps
          else notifyParticipants
                 (notifyPeer s callId u CALL_END (successResponse (CallIdData callId) None))
                 callId ps)"

text \<open>\<open>endCall\<close> reads \<open>client.data.userId\<close> for its log line only and begins with the
  update. The update of a call that does not exist throws, which ends in
  \<open>HandleError\<close>.\<close>

definition endStart :: "ServerState \<Rightarrow> Socket \<Rightarrow> CallActionDto \<Rightarrow> nat \<Rightarrow> outcome" where
  "endStart s client dto now =
     (case calls s (dto_callId dto) of
        None \<Rightarrow> returned (handleError ''Failed to end call'' s)
      | Some row \<Rightarrow>
         (let call = row\<lparr>status := ENDED, endedAt := Some now\<rparr>
          in suspended (EndUpdated client dto call)
               (s\<lparr>calls := (calls s)(dto_callId dto \<mapsto> call)\<rparr>)))"

definition endFinish ::
  "ServerState \<Rightarrow> Socket \<Rightarrow> CallActionDto \<Rightarrow> PrivateCall \<Rightarrow> TResponse \<times> ServerState" where
  "endFinish s client dto call =
     (let s2 = clearRingTimeout s (dto_callId dto);
          s3 = notifyParticipants s2 (call_id call) (participants call);
          s4 = dropCallSocketEntry s3 (dto_callId dto)
      in (successResponse (CallIdData (dto_callId dto)) (Some ''Call ended''), s4))"

subsection \<open>Signalling relay (WebRTCService)\<close>

definition forwardOfferStart :: "ServerState \<Rightarrow> Socket \<Rightarrow> RTCOfferDto \<Rightarrow> outcome" where
  "forwardOfferStart s client pl =
     (case data_userId client of
        None \<Rightarrow> returned (emitError s client ''Unauthorized'')
      | Some from \<Rightarrow>
         if from = [] then returned (emitError s client ''Unauthorized'')
         else suspended (OfferRead client pl from (calls s (offer_callId pl))) s)"

definition forwardOfferFinish ::
  "ServerState \<Rightarrow> Socket \<Rightarrow> RTCOfferDto \<Rightarrow> userId \<Rightarrow> PrivateCall option \<Rightarrow>
   TResponse \<times> ServerState" where
  "forwardOfferFinish s client pl from callRead =
     (case callRead of
        None \<Rightarrow> emitError s client ''Call not found''
      | Some call \<Rightarrow>
         (case find (\<lambda>p. p_userId p \<noteq> Some from) (participants call) of
            None \<Rightarrow> emitError s client ''Recipient not found''
          | Some other \<Rightarrow>
             if \<not> truthy (p_userId other) then emitError s client ''Recipient not found''
             else
              (case p_userId other of
                 None \<Rightarrow> emitError s client ''Recipient not found''
               | Some otherId \<Rightarrow>
                  (let target = findTargetSocketForRecipient s (call_id call) otherId
                                  (offer_to pl) (Some (sid client))
                   in if \<not> truthy target
                      then emitError s client ''Recipient not available''
                      else
                       (case target of
                          None \<Rightarrow> emitError s client ''Recipient not available''
                        | Some t \<Rightarrow>
                           (let s1 = emitToSocketId s t RTC_OFFER
                                       (successResponse
                                          (SdpData (call_id call) (offer_sdp pl) from) None);
                                s2 = setCallSocket s1 (call_id call) from (sid client)
                            in (successResponse (OfferEcho pl) (Some ''Offer forwarded''),
                                s2)))))))"

definition forwardAnswerStart :: "ServerState \<Rightarrow> Socket \<Rightarrow> RTCAnswerDto \<Rightarrow> outcome" where
  "forwardAnswerStart s client pl =
     (case data_userId client of
        None \<Rightarrow> returned (emitError s client ''Unauthorized'')
      | Some from \<Rightarrow>
         if from = [] then returned (emitError s client ''Unauthorized'')
         else suspended (AnswerRead client pl from (calls s (answer_callId pl))) s)"

definition forwardAnswerFinish ::
  "ServerState \<Rightarrow> Socket \<Rightarrow> RTCAnswerDto \<Rightarrow> userId \<Rightarrow> PrivateCall option \<Rightarrow>
   TResponse \<times> ServerState" where
  "forwardAnswerFinish s client pl from callRead =
     (case callRead of
        None \<Rightarrow> emitError s client ''Call not found''
      | Some call \<Rightarrow>
         (case find (\<lambda>p. p_userId p \<noteq> Some from) (participants call) of
            None \<Rightarrow> emitError s client ''Recipient not found''
          | Some other \<Rightarrow>
             if \<not> truthy (p_userId other) then emitError s client ''Recipient not found''
             else
              (case p_userId other of
                 None \<Rightarrow> emitError s client ''Recipient not found''
               | Some otherId \<Rightarrow>
                  (let target = findTargetSocketForRecipient s (call_id call) otherId
                                  (answer_to pl) (Some (sid client))
                   in if \<not> truthy target
                      then emitError s client ''Recipient not available''
                      else
                       (case target of
                          None \<Rightarrow> emitError s client ''Recipient not available''
                        | Some t \<Rightarrow>
                           (let s1 = emitToSocketId s t RTC_ANSWER
                                       (successResponse
                                          (SdpData (call_id call) (answer_sdp pl) from) None);
                                s2 = setCallSocket s1 (call_id call) from (sid client)
                            in (successResponse (AnswerEcho pl) (Some ''Answer forwarded''),
                                s2)))))))"

definition forwardCandidateStart :: "ServerState \<Rightarrow> Socket \<Rightarrow> RTCIceCandidateDto \<Rightarrow> outcome" where
  "forwardCandidateStart s client pl =
     (case data_userId client of
        None \<Rightarrow> returned (emitError s client ''Unauthorized'')
      | Some from \<Rightarrow>
         if from = [] then returned (emitError s client ''Unauthorized'')
         else suspended (CandidateRead client pl from (calls s (cand_callId pl))) s)"

definition forwardCandidateFinish ::
  "ServerState \<Rightarrow> Socket \<Rightarrow> RTCIceCandidateDto \<Rightarrow> userId \<Rightarrow> PrivateCall option \<Rightarrow>
   TResponse \<times> ServerState" where
  "forwardCandidateFinish s client pl from callRead =
     (case callRead of
        None \<Rightarrow> emitError s client ''Call not found''
      | Some call \<Rightarrow>
         (case find (\<lambda>p. p_userId p \<noteq> Some from) (participants call) of
            None \<Rightarrow> emitError s client ''Recipient not found''
          | Some other \<Rightarrow>
             if \<not> truthy (p_userId other) then emitError s client ''Recipient not found''
             else
              (case p_userId other of
                 None \<Rightarrow> emitError s client ''Recipient not found''
               | Some otherId \<Rightarrow>
                  (let target = findTargetSocketForRecipient s (call_id call) otherId
                                  (cand_to pl) (Some (sid client))
                   in if \<not> truthy target
                      then emitError s client ''Recipient not available''
                      else
                       (case target of
                          None \<Rightarrow> emitError s client ''Recipient not available''
                        | Some t \<Rightarrow>
                           (let s1 = emitToSocketId s t RTC_ICE_CANDIDATE
                                       (successResponse
                                          (CandidateData (call_id call) (cand_candidate pl)
                                             (cand_sdpMid pl) (cand_sdpMLineIndex pl) from)
                                          None);
                                s2 = setCallSocket s1 (call_id call) from (sid client)
                            in (successResponse (CandidateEcho pl)
                                  (Some ''Candidate forwarded''),
                                s2)))))))"

subsection \<open>Resuming a suspended handler\<close>

fun resume :: "ServerState \<Rightarrow> task \<Rightarrow> nat \<Rightarrow> outcome" where
  "resume s (InitiateRead client dto newId callerId conv) now =
     initiateCreate s client dto newId callerId conv"
| "resume s (InitiateCreated client callerId targetId call) now =
     returned (initiateFinish s client callerId targetId call now)"
| "resume s (AcceptRead client dto userId callRead) now =
     acceptJoin s client dto userId callRead now"
| "resume s (AcceptJoined client dto userId call) now =
     acceptOngoing s client dto userId call now"
| "resume s (AcceptStarted client dto userId call) now =
     returned (acceptFinish s client dto userId call)"
| "resume s (RejectRead client dto userId callRead) now =
     rejectMark s client dto userId callRead now"
| "resume s (RejectMarked client dto userId call) now =
     rejectMiss s client dto userId call now"
| "resume s (RejectMissed client dto userId call) now =
     returned (rejectFinish s client dto userId call)"
| "resume s (EndUpdated client dto call) now =
     returned (endFinish s client dto call)"
| "resume s (OfferRead client pl from callRead) now =
     returned (forwardOfferFinish s client pl from callRead)"
| "resume s (AnswerRead client pl from callRead) now =
     returned (forwardAnswerFinish s client pl from callRead)"
| "resume s (CandidateRead client pl from callRead) now =
     returned (forwardCandidateFinish s client pl from callRead)"

text \<open>The number of steps a suspended handler has left at most.\<close>

fun stepsLeft :: "task \<Rightarrow> nat" where
  "stepsLeft (InitiateRead client dto newId callerId conv) = 2"
| "stepsLeft (InitiateCreated client callerId targetId call) = 1"
| "stepsLeft (AcceptRead client dto userId callRead) = 3"
| "stepsLeft (AcceptJoined client dto userId call) = 2"
| "stepsLeft (AcceptStarted client dto userId call) = 1"
| "stepsLeft (RejectRead client dto userId callRead) = 3"
| "stepsLeft (RejectMarked client dto userId call) = 2"
| "stepsLeft (RejectMissed client dto userId call) = 1"
| "stepsLeft (EndUpdated client dto call) = 1"
| "stepsLeft (OfferRead client pl from callRead) = 1"
| "stepsLeft (AnswerRead client pl from callRead) = 1"
| "stepsLeft (CandidateRead client pl from callRead) = 1"

definition outcomeSteps :: "outcome \<Rightarrow> nat" where
  "outcomeSteps oc = (case fst oc of Inl t \<Rightarrow> stepsLeft t | Inr r \<Rightarrow> 0)"

section \<open>A handler with nothing running in between\<close>

text \<open>Running a handler from its first step to its return while nothing else runs,
  every timestamp it takes being \<open>now\<close>.\<close>

function alone :: "outcome \<Rightarrow> nat \<Rightarrow> TResponse \<times> ServerState" where
  "alone (Inr r, s) now = (r, s)"
| "alone (Inl t, s) now = alone (resume s t now) now"
  by pat_completeness auto
termination
proof (relation "measure (\<lambda>(oc, now). outcomeSteps oc)")
  show "wf (measure (\<lambda>(oc, now). outcomeSteps oc))" by simp
next
  fix t :: task and s :: ServerState and now :: nat
  have "outcomeSteps (resume s t now) < stepsLeft t"
    by (cases t)
       (simp_all add: outcomeSteps_def returned_def suspended_def initiateCreate_def
          acceptJoin_def acceptOngoing_def rejectMark_def rejectMiss_def Let_def
          split: option.splits)
  then show "((resume s t now, now), ((Inl t, s), now)) \<in> measure (\<lambda>(oc, now). outcomeSteps oc)"
    by (simp add: outcomeSteps_def)
qed

definition initiateCall ::
  "ServerState \<Rightarrow> Socket \<Rightarrow> InitiateCallDto \<Rightarrow> callId \<Rightarrow> nat \<Rightarrow> TResponse \<times> ServerState" where
  "initiateCall s client dto newId now = alone (initiateStart s client dto newId) now"

definition acceptCall ::
  "ServerState \<Rightarrow> Socket \<Rightarrow> CallActionDto \<Rightarrow> nat \<Rightarrow> TResponse \<times> ServerState" where
  "acceptCall s client dto now = alone (acceptStart s client dto) now"

definition rejectCall ::
  "ServerState \<Rightarrow> Socket \<Rightarrow> CallActionDto \<Rightarrow> nat \<Rightarrow> TResponse \<times> ServerState" where
  "rejectCall s client dto now = alone (rejectStart s client dto) now"

definition endCall ::
  "ServerState \<Rightarrow> Socket \<Rightarrow> CallActionDto \<Rightarrow> nat \<Rightarrow> TResponse \<times> ServerState" where
  "endCall s client dto now = alone (endStart s client dto now) now"

definition forwardOffer :: "ServerState \<Rightarrow> Socket \<Rightarrow> RTCOfferDto \<Rightarrow> TResponse \<times> ServerState" where
  "forwardOffer s client pl = alone (forwardOfferStart s client pl) 0"

definition forwardAnswer :: "ServerState \<Rightarrow> Socket \<Rightarrow> RTCAnswerDto \<Rightarrow> TResponse \<times> ServerState" where
  "forwardAnswer s client pl = alone (forwardAnswerStart s client pl) 0"

definition forwardCandidate ::
  "ServerState \<Rightarrow> Socket \<Rightarrow> RTCIceCandidateDto \<Rightarrow> TResponse \<times> ServerState" where
  "forwardCandidate s client pl = alone (forwardCandidateStart s client pl) 0"

section \<open>The ring-timeout callback\<close>

text \<open>
  The callback armed by \<open>setRingTimeout\<close>, in three steps: it starts, once its timer is
  due and has neither fired nor been cleared, and takes the end timestamp; its update
  of the call takes effect; after the update it drops the socket map entry (unless
  the update threw) and in every case clears the timer entry.
\<close>

datatype callback =
    TimerStarted callId nat
  | TimerUpdated callId bool

definition timerStart :: "ServerState \<Rightarrow> callId \<Rightarrow> nat \<Rightarrow> (callback \<times> ServerState) option" where
  "timerStart s callId now =
     (case ringTimeouts s callId of
        None \<Rightarrow> None
      | Some t \<Rightarrow>
          if fired t \<or> now < due t then None
          else Some (TimerStarted callId now,
                     s\<lparr>ringTimeouts := (ringTimeouts s)(callId \<mapsto> t\<lparr>fired := True\<rparr>)\<rparr>))"

fun resumeCallback :: "ServerState \<Rightarrow> callback \<Rightarrow> callback option \<times> ServerState" where
  "resumeCallback s (TimerStarted callId now) =
     (case calls s callId of
        None \<Rightarrow> (Some (TimerUpdated callId False), s)
      | Some row \<Rightarrow>
          (Some (TimerUpdated callId True),
           s\<lparr>calls := (calls s)(callId \<mapsto> row\<lparr>status := MISSED, endedAt := Some now\<rparr>)\<rparr>))"
| "resumeCallback s (TimerUpdated callId updated) =
     (None, clearRingTimeout (if updated then dropCallSocketEntry s callId else s) callId)"

text \<open>The callback with nothing running in between; \<open>None\<close> says it does not start.\<close>

definition ringTimeoutFire :: "ServerState \<Rightarrow> callId \<Rightarrow> nat \<Rightarrow> ServerState option" where
  "ringTimeoutFire s callId now =
     (case timerStart s callId now of
        None \<Rightarrow> None
      | Some (cb, s1) \<Rightarrow>
          (case resumeCallback s1 cb of
             (None, s2) \<Rightarrow> Some s2
           | (Some cb2, s2) \<Rightarrow> Some (snd (resumeCallback s2 cb2))))"

section \<open>The running process\<close>

text \<open>Connection lifecycle as the registry sees it: \<open>handleConnection\<close> ends in
  \<open>subscribeClient\<close>, \<open>handleDisconnect\<close> in \<open>unsubscribeClient\<close>.\<close>

datatype presence_event =
    Subscribe userId Socket
  | Unsubscribe userId Socket

fun presence_step :: "registry \<Rightarrow> presence_event \<Rightarrow> registry" where
  "presence_step r (Subscribe u c) = subscribeClient r u c"
| "presence_step r (Unsubscribe u c) = unsubscribeClient r u c"

definition presence_run :: "registry \<Rightarrow> presence_event list \<Rightarrow> registry" where
  "presence_run r evs = foldl presence_step r evs"

text \<open>The process: the shared state, the handlers and timer callbacks that are
  suspended, and the responses returned so far.\<close>

record System =
  shared :: ServerState
  tasks :: "task list"
  callbacks :: "callback list"
  replies :: "TResponse list"

datatype request =
    InitiateReq Socket InitiateCallDto callId
  | AcceptReq Socket CallActionDto
  | RejectReq Socket CallActionDto
  | EndReq Socket CallActionDto
  | OfferReq Socket RTCOfferDto
  | AnswerReq Socket RTCAnswerDto
  | CandidateReq Socket RTCIceCandidateDto

fun start :: "ServerState \<Rightarrow> request \<Rightarrow> nat \<Rightarrow> outcome" where
  "start s (InitiateReq client dto newId) now = initiateStart s client dto newId"
| "start s (AcceptReq client dto) now = acceptStart s client dto"
| "start s (RejectReq client dto) now = rejectStart s client dto"
| "start s (EndReq client dto) now = endStart s client dto now"
| "start s (OfferReq client pl) now = forwardOfferStart s client pl"
| "start s (AnswerReq client pl) now = forwardAnswerStart s client pl"
| "start s (CandidateReq client pl) now = forwardCandidateStart s client pl"

text \<open>One thing happens at a time: a message arrives and its handler runs its first
  step, a suspended handler or callback runs its next step, a connection comes or
  goes, a timer starts its callback. An action that names no suspended handler or no
  startable timer changes nothing.\<close>

datatype action =
    Invoke request nat
  | Resume nat nat
  | Connection presence_event
  | TimerFire callId nat
  | ResumeCallback nat

definition dropAt :: "nat \<Rightarrow> 'a list \<Rightarrow> 'a list" where
  "dropAt i xs = take i xs @ drop (Suc i) xs"

fun sysStep :: "System \<Rightarrow> action \<Rightarrow> System" where
  "sysStep sys (Invoke req now) =
     (case start (shared sys) req now of
        (Inl t, s) \<Rightarrow> sys\<lparr>shared := s, tasks := tasks sys @ [t]\<rparr>
      | (Inr r, s) \<Rightarrow> sys\<lparr>shared := s, replies := replies sys @ [r]\<rparr>)"
| "sysStep sys (Resume i now) =
     (if i < length (tasks sys)
      then (case resume (shared sys) (tasks sys ! i) now of
              (Inl t, s) \<Rightarrow> sys\<lparr>shared := s, tasks := (tasks sys)[i := t]\<rparr>
            | (Inr r, s) \<Rightarrow>
                sys\<lparr>shared := s, tasks := dropAt i (tasks sys), replies := replies sys @ [r]\<rparr>)
      else sys)"
| "sysStep sys (Connection e) =
     sys\<lparr>shared := (shared sys)\<lparr>clients := presence_step (clients (shared sys)) e\<rparr>\<rparr>"
| "sysStep sys (TimerFire callId now) =
     (case timerStart (shared sys) callId now of
        None \<Rightarrow> sys
      | Some (cb, s) \<Rightarrow> sys\<lparr>shared := s, callbacks := callbacks sys @ [cb]\<rparr>)"
| "sysStep sys (ResumeCallback i) =
     (if i < length (callbacks sys)
      then (case resumeCallback (shared sys) (callbacks sys ! i) of
              (Some cb, s) \<Rightarrow> sys\<lparr>shared := s, callbacks := (callbacks sys)[i := cb]\<rparr>
            | (None, s) \<Rightarrow> sys\<lparr>shared := s, callbacks := dropAt i (callbacks sys)\<rparr>)
      else sys)"

definition sysRun :: "System \<Rightarrow> action list \<Rightarrow> System" where
  "sysRun sys acts = foldl sysStep sys acts"

text \<open>A process in state \<open>s\<close> with nothing suspended.\<close>

definition idle :: "ServerState \<Rightarrow> System" where
  "idle s = \<lparr>shared = s, tasks = [], callbacks = [], replies = []\<rparr>"

text \<open>The state of a freshly started process over the given conversation table.\<close>

definition initialState :: "(conversationId \<rightharpoonup> PrivateConversation) \<Rightarrow> ServerState" where
  "initialState convs =
     \<lparr>calls = Map.empty, conversations = convs, clients = Map.empty,
      callSocketMap = Map.empty, ringTimeouts = Map.empty, emitted = []\<rparr>"

definition terminal :: "CallStatus \<Rightarrow> bool" where
  "terminal st = (st = ENDED \<or> st = MISSED)"

definition callStatus :: "ServerState \<Rightarrow> callId \<Rightarrow> CallStatus option" where
  "callStatus s callId = map_option status (calls s callId)"

section \<open>The specification's reading of the router and the registry\<close>

text \<open>The connections the registry holds for a user.\<close>

definition connectionsOf :: "registry \<Rightarrow> userId \<Rightarrow> Socket list" where
  "connectionsOf r u = (case r u of None \<Rightarrow> [] | Some socks \<Rightarrow> socks)"

text \<open>The resolution order as the specification words it, read off the registry and
  the socket map themselves. A connection of the recipient is eligible when it is not
  the excluded one. The result is the hint when the hint is the id of an eligible
  connection, else the recorded connection when there is one and it differs from the
  excluded one, else the id of the first eligible connection, else not found.\<close>

definition resolveTarget ::
  "registry \<Rightarrow> (callId \<rightharpoonup> (userId \<rightharpoonup> socketId)) \<Rightarrow> callId \<Rightarrow> userId \<Rightarrow>
   socketId option \<Rightarrow> socketId option \<Rightarrow> socketId option" where
  "resolveTarget reg routes callId recipient hint exclude =
     (let recorded = (case routes callId of None \<Rightarrow> None | Some m \<Rightarrow> m recipient)
      in if \<exists>c \<in> set (connectionsOf reg recipient).
              hint = Some (sid c) \<and> Some (sid c) \<noteq> exclude
         then hint
         else if recorded \<noteq> None \<and> recorded \<noteq> exclude then recorded
         else map_option sid
                (find (\<lambda>c. Some (sid c) \<noteq> exclude) (connectionsOf reg recipient)))"

text \<open>Connection identifiers are assigned by the transport and are never the empty
  string: no socket of the registry and no recorded route carries one.\<close>

definition nonemptyIds :: "ServerState \<Rightarrow> bool" where
  "nonemptyIds s =
     ((\<forall>u socks c. clients s u = Some socks \<and> c \<in> set socks \<longrightarrow> sid c \<noteq> []) \<and>
      (\<forall>k m u. callSocketMap s k = Some m \<longrightarrow> m u \<noteq> Some []))"

text \<open>The subscribes and the unsubscribes of a user in an event sequence, as multisets
  of connections.\<close>

fun subscribes :: "presence_event list \<Rightarrow> userId \<Rightarrow> Socket multiset" where
  "subscribes [] u = {#}"
| "subscribes (Subscribe v c # evs) u = (if v = u then add_mset c (subscribes evs u) else subscribes evs u)"
| "subscribes (Unsubscribe v c # evs) u = subscribes evs u"

fun unsubscribes :: "presence_event list \<Rightarrow> userId \<Rightarrow> Socket multiset" where
  "unsubscribes [] u = {#}"
| "unsubscribes (Subscribe v c # evs) u = unsubscribes evs u"
| "unsubscribes (Unsubscribe v c # evs) u = (if v = u then add_mset c (unsubscribes evs u) else unsubscribes evs u)"

text \<open>The live connections of a user: the events replayed in order on a set, so that
  a repeated subscribe or unsubscribe of the same pair changes nothing.\<close>

fun attached :: "Socket set \<Rightarrow> presence_event list \<Rightarrow> userId \<Rightarrow> Socket set" where
  "attached A [] u = A"
| "attached A (Subscribe v c # evs) u = attached (if v = u then insert c A else A) evs u"
| "attached A (Unsubscribe v c # evs) u = attached (if v = u then A - {c} else A) evs u"

text \<open>A sequence as the connection lifecycle produces it: a connection is subscribed
  only while detached and unsubscribed only while attached.\<close>

fun lifecycle :: "registry \<Rightarrow> presence_event list \<Rightarrow> bool" where
  "lifecycle r [] = True"
| "lifecycle r (Subscribe v c # evs) =
     (c \<notin> set (connectionsOf r v) \<and> lifecycle (subscribeClient r v c) evs)"
| "lifecycle r (Unsubscribe v c # evs) =
     (c \<in> set (connectionsOf r v) \<and> lifecycle (unsubscribeClient r v c) evs)"

section \<open>A worked scenario\<close>

text \<open>One conversation between an administrator and a user, a connection for each,
  a connection that never authenticated, and the states a call goes through when its
  handlers run one after the other.\<close>

definition adminSocket :: Socket where
  "adminSocket = \<lparr>sid = ''sock-a'', data_userId = Some ''admin1''\<rparr>"

definition userSocket :: Socket where
  "userSocket = \<lparr>sid = ''sock-u'', data_userId = Some ''user1''\<rparr>"

definition userSocket2 :: Socket where
  "userSocket2 = \<lparr>sid = ''sock-v'', data_userId = Some ''user1''\<rparr>"

definition anonymousSocket :: Socket where
  "anonymousSocket = \<lparr>sid = ''sock-x'', data_userId = None\<rparr>"

definition exampleConversations :: "conversationId \<rightharpoonup> PrivateConversation" where
  "exampleConversations =
     [''conv1'' \<mapsto>
        \<lparr>conv_id = ''conv1'',
         conv_participants =
           [\<lparr>cp_userId = Some ''admin1'', cp_type = ADMIN_GROUP\<rparr>,
            \<lparr>cp_userId = Some ''user1'', cp_type = USER\<rparr>]\<rparr>]"

definition call1 :: CallActionDto where
  "call1 = \<lparr>dto_callId = ''call1''\<rparr>"

definition videoCall :: InitiateCallDto where
  "videoCall = \<lparr>dto_conversationId = ''conv1'', dto_type = VIDEO\<rparr>"

definition connectedState :: ServerState where
  "connectedState =
     (initialState exampleConversations)
       \<lparr>clients := presence_run Map.empty
                     [Subscribe ''admin1'' adminSocket, Subscribe ''user1'' userSocket]\<rparr>"

definition ringingState :: ServerState where
  "ringingState = snd (initiateCall connectedState adminSocket videoCall ''call1'' 1000)"

definition ongoingState :: ServerState where
  "ongoingState = snd (acceptCall ringingState userSocket call1 2000)"

definition missedState :: ServerState where
  "missedState = snd (rejectCall ringingState userSocket call1 2000)"

definition timedOutState :: ServerState where
  "timedOutState =
     (case ringTimeoutFire ringingState ''call1'' 31000 of
        None \<Rightarrow> ringingState
      | Some s \<Rightarrow> s)"

definition calleeOfflineState :: ServerState where
  "calleeOfflineState =
     ringingState\<lparr>clients := presence_step (clients ringingState)
                                (Unsubscribe ''user1'' userSocket)\<rparr>"

text \<open>The ongoing call after the user has opened a second connection.\<close>

definition twoSocketState :: ServerState where
  "twoSocketState =
     ongoingState\<lparr>clients := presence_step (clients ongoingState)
                               (Subscribe ''user1'' userSocket2)\<rparr>"

text \<open>Representation invariants of the registry: no user is mapped to an empty
  connection list, and no list holds a connection twice.\<close>

definition noEmptyEntry :: "registry \<Rightarrow> bool" where
  "noEmptyEntry r = (\<forall>u. r u \<noteq> Some [])"

definition distinctEntries :: "registry \<Rightarrow> bool" where
  "distinctEntries r = (\<forall>u. distinct (connectionsOf r u))"

text \<open>A run in which the callee's Accept and the ring timeout overlap: the Accept
  arrives shortly before the timer is due and makes its two writes; the timer comes
  due and its callback starts and marks the call; the Accept goes on to its last step;
  the callback finishes.\<close>

definition raceActions :: "action list" where
  "raceActions =
     [Invoke (AcceptReq userSocket call1) 30900,
      Resume 0 30950,
      Resume 0 30990,
      TimerFire ''call1'' 31000,
      ResumeCallback 0,
      Resume 0 31010,
      ResumeCallback 0]"

text \<open>A run from the start of the process in which the callee accepts after the ring
  timeout has run.\<close>

definition lateAcceptActions :: "action list" where
  "lateAcceptActions =
     [Invoke (InitiateReq adminSocket videoCall ''call1'') 1000,
      Resume 0 1000,
      Resume 0 1000,
      TimerFire ''call1'' 31000,
      ResumeCallback 0,
      ResumeCallback 0,
      Invoke (AcceptReq userSocket call1) 32000,
      Resume 0 32000,
      Resume 0 32000]"

section \<open>What a suspended handler is about to do\<close>

text \<open>An Accept of call \<open>c\<close> that read the call as INITIATED and has not yet made its
  status write: it will write ONGOING, whatever the status has become.\<close>

fun staleAccept :: "callId \<Rightarrow> task \<Rightarrow> bool" where
  "staleAccept c (AcceptRead client dto userId (Some call)) =
     (dto_callId dto = c \<and> status call = INITIATED)"
| "staleAccept c (AcceptJoined client dto userId call) =
     (dto_callId dto = c \<and> status call = INITIATED)"
| "staleAccept c t = False"

text \<open>A handler that will, or may, write the socket map entry of call \<open>c\<close> before it
  returns: an Initiate that has created the call, an Accept of the call, a relay
  forward that read the call.\<close>

fun routeWriter :: "callId \<Rightarrow> task \<Rightarrow> bool" where
  "routeWriter c (InitiateCreated client callerId targetId call) = (call_id call = c)"
| "routeWriter c (AcceptRead client dto userId (Some call)) = (dto_callId dto = c)"
| "routeWriter c (AcceptJoined client dto userId call) = (dto_callId dto = c)"
| "routeWriter c (AcceptStarted client dto userId call) = (dto_callId dto = c)"
| "routeWriter c (OfferRead client pl from (Some call)) = (call_id call = c)"
| "routeWriter c (AnswerRead client pl from (Some call)) = (call_id call = c)"
| "routeWriter c (CandidateRead client pl from (Some call)) = (call_id call = c)"
| "routeWriter c t = False"

text \<open>An arriving message that asks for an Accept of call \<open>c\<close> or for a relay forward
  on it.\<close>

fun routeRequest :: "callId \<Rightarrow> action \<Rightarrow> bool" where
  "routeRequest c (Invoke (AcceptReq client dto) now) = (dto_callId dto = c)"
| "routeRequest c (Invoke (OfferReq client pl) now) = (offer_callId pl = c)"
| "routeRequest c (Invoke (AnswerReq client pl) now) = (answer_callId pl = c)"
| "routeRequest c (Invoke (CandidateReq client pl) now) = (cand_callId pl = c)"
| "routeRequest c a = False"

text \<open>Every call row is stored under its own id, as the primary key has it.\<close>

definition keyedById :: "ServerState \<Rightarrow> bool" where
  "keyedById s = (\<forall>k call. calls s k = Some call \<longrightarrow> call_id call = k)"

text \<open>An Accept of call \<open>c\<close> by user \<open>u\<close>, suspended after a read that found the call;
  whether it has made its participant write; whether the rows it read held a row of
  the user.\<close>

fun acceptOf :: "callId \<Rightarrow> userId \<Rightarrow> task \<Rightarrow> bool" where
  "acceptOf c u (AcceptRead client dto userId (Some call)) = (dto_callId dto = c \<and> userId = u)"
| "acceptOf c u (AcceptJoined client dto userId call) = (dto_callId dto = c \<and> userId = u)"
| "acceptOf c u (AcceptStarted client dto userId call) = (dto_callId dto = c \<and> userId = u)"
| "acceptOf c u t = False"

fun joinedStage :: "task \<Rightarrow> bool" where
  "joinedStage (AcceptJoined client dto userId call) = True"
| "joinedStage (AcceptStarted client dto userId call) = True"
| "joinedStage t = False"

definition rowOf :: "userId \<Rightarrow> CallParticipant list \<Rightarrow> CallParticipant option" where
  "rowOf u rows = find (\<lambda>p. p_userId p = Some u) rows"

fun sawRow :: "userId \<Rightarrow> task \<Rightarrow> bool" where
  "sawRow u (AcceptRead client dto userId (Some call)) = (rowOf u (participants call) \<noteq> None)"
| "sawRow u (AcceptJoined client dto userId call) = (rowOf u (participants call) \<noteq> None)"
| "sawRow u (AcceptStarted client dto userId call) = (rowOf u (participants call) \<noteq> None)"
| "sawRow u t = False"

text \<open>The actions of a run in which nothing happens but Accepts of call \<open>c\<close> by user
  \<open>u\<close>: such a message arrives, or a suspended handler goes on.\<close>

fun acceptAction :: "callId \<Rightarrow> userId \<Rightarrow> action \<Rightarrow> bool" where
  "acceptAction c u (Invoke (AcceptReq client dto) now) =
     (dto_callId dto = c \<and> data_userId client = Some u)"
| "acceptAction c u (Resume i now) = True"
| "acceptAction c u a = False"

text \<open>Status and start timestamp of a call.\<close>

definition startOf :: "ServerState \<Rightarrow> callId \<Rightarrow> (CallStatus \<times> nat option) option" where
  "startOf s k = map_option (\<lambda>call. (status call, startedAt call)) (calls s k)"

text \<open>Call \<open>c\<close> has a terminal status and no suspended Accept is about to overwrite it.\<close>

definition settled :: "callId \<Rightarrow> System \<Rightarrow> bool" where
  "settled c sys =
     ((\<exists>call. calls (shared sys) c = Some call \<and> terminal (status call)) \<and>
      list_all (\<lambda>t. \<not> staleAccept c t) (tasks sys))"

text \<open>Call \<open>c\<close> exists, has no socket map entry, and no suspended handler is about to
  write one.\<close>

definition routeFree :: "callId \<Rightarrow> System \<Rightarrow> bool" where
  "routeFree c sys =
     (calls (shared sys) c \<noteq> None \<and> keyedById (shared sys) \<and>
      callSocketMap (shared sys) c = None \<and>
      list_all (\<lambda>t. \<not> routeWriter c t) (tasks sys))"

text \<open>Every row of user \<open>u\<close> is JOINED.\<close>

definition allJoined :: "userId \<Rightarrow> CallParticipant list \<Rightarrow> bool" where
  "allJoined u rows = list_all (\<lambda>p. p_userId p = Some u \<longrightarrow> p_status p = P_JOINED) rows"

text \<open>The user's first row is JOINED.\<close>

definition joinedRow :: "userId \<Rightarrow> CallParticipant list \<Rightarrow> bool" where
  "joinedRow u rows = (\<exists>p. rowOf u rows = Some p \<and> p_status p = P_JOINED)"

text \<open>What holds throughout a run of Accepts of call \<open>c\<close> by user \<open>u\<close> on a call that
  was INITIATED or ONGOING: the call is still one of the two; the suspended handlers
  are such Accepts; while the call is INITIATED none has returned and each read it as
  INITIATED; a handler that read a row of the user finds one in the table; if some
  handler read no row of the user, all the user's rows in the table are JOINED; once a
  handler has made its participant write or returned, the user's first row is JOINED;
  and every response is "Call accepted".\<close>

definition accepting :: "callId \<Rightarrow> userId \<Rightarrow> System \<Rightarrow> bool" where
  "accepting c u sys =
     (\<exists>cur. calls (shared sys) c = Some cur \<and>
        (status cur = INITIATED \<or> status cur = ONGOING) \<and>
        (\<forall>t \<in> set (tasks sys). acceptOf c u t) \<and>
        (status cur = INITIATED \<longrightarrow>
           replies sys = [] \<and> (\<forall>t \<in> set (tasks sys). staleAccept c t)) \<and>
        (\<forall>t \<in> set (tasks sys). sawRow u t \<longrightarrow> rowOf u (participants cur) \<noteq> None) \<and>
        (\<forall>t \<in> set (tasks sys). \<not> sawRow u t \<longrightarrow> allJoined u (participants cur)) \<and>
        ((replies sys \<noteq> [] \<or> (\<exists>t \<in> set (tasks sys). joinedStage t)) \<longrightarrow>
           joinedRow u (participants cur)) \<and>
        (\<forall>r \<in> set (replies sys).
           r = successResponse (CallUserData c u) (Some ''Call accepted'')))"

section \<open>The handlers run alone\<close>

lemmas segment_defs =
  returned_def suspended_def
  initiateStart_def initiateCreate_def initiateFinish_def
  acceptStart_def acceptJoin_def acceptOngoing_def acceptFinish_def
  rejectStart_def rejectMark_def rejectMiss_def rejectFinish_def
  endStart_def endFinish_def
  forwardOfferStart_def forwardOfferFinish_def
  forwardAnswerStart_def forwardAnswerFinish_def
  forwardCandidateStart_def forwardCandidateFinish_def

lemma initiateCall_eq:
  "initiateCall s client dto newId now =
     (case data_userId client of
        None \<Rightarrow> emitError s client ''Unauthorized''
      | Some callerId \<Rightarrow>
         if callerId = [] then emitError s client ''Unauthorized''
         else
          (case conversations s (dto_conversationId dto) of
             None \<Rightarrow> emitError s client ''Conversation not found''
           | Some conversation \<Rightarrow>
              (case find (\<lambda>p. cp_userId p = Some callerId \<and> cp_type p = ADMIN_GROUP)
                         (conv_participants conversation) of
                 None \<Rightarrow> emitError s client ''Only admins may initiate calls''
               | Some callerParticipant \<Rightarrow>
                  (case find (\<lambda>p. cp_type p = USER \<and> truthy (cp_userId p))
                             (conv_participants conversation) of
                     None \<Rightarrow> emitError s client ''No user in conversation to call''
                   | Some userParticipant \<Rightarrow>
                      (case cp_userId userParticipant of
                         None \<Rightarrow> emitError s client ''No user in conversation to call''
                       | Some targetId \<Rightarrow>
                          if calls s newId \<noteq> None then handleError ''Failed to initiate call'' s
                          else
                           (let call = \<lparr>call_id = newId,
                                        call_conversationId = dto_conversationId dto,
                                        initiatorId = callerId,
                                        call_type = dto_type dto,
                                        status = INITIATED,
                                        startedAt = None,
                                        endedAt = None,
                                        participants =
                                          [\<lparr>p_userId = Some callerId, p_status = P_JOINED,
                                            joinedAt = None, leftAt = None\<rparr>,
                                           \<lparr>p_userId = Some targetId, p_status = P_MISSED,
                                            joinedAt = None, leftAt = None\<rparr>]\<rparr>;
                                s1 = s\<lparr>calls := (calls s)(newId \<mapsto> call)\<rparr>;
                                s2 = s1\<lparr>callSocketMap :=
                                         (callSocketMap s1)(newId \<mapsto> [callerId \<mapsto> sid client])\<rparr>;
                                s3 = notifyPeer s2 newId targetId CALL_INCOMING
                                       (successResponse (IncomingData call callerId) None);
                                s4 = setRingTimeout s3 newId 30000 now
                            in (successResponse (CallData call) (Some ''Call initiated''), s4)))))))"
proof (cases "data_userId client")
  case None
  then show ?thesis by (simp add: initiateCall_def initiateStart_def returned_def)
next
  case (Some callerId)
  show ?thesis
  proof (cases "callerId = []")
    case True
    then show ?thesis using Some by (simp add: initiateCall_def initiateStart_def returned_def)
  next
    case False
    then show ?thesis
      using Some
      by (simp add: initiateCall_def initiateStart_def initiateCreate_def initiateFinish_def
            returned_def suspended_def Let_def split: option.splits)
  qed
qed

lemma acceptCall_eq:
  "acceptCall s client dto now =
     (case data_userId client of
        None \<Rightarrow> emitError s client ''Unauthorized''
      | Some userId \<Rightarrow>
         if userId = [] then emitError s client ''Unauthorized''
         else
          (case calls s (dto_callId dto) of
             None \<Rightarrow> emitError s client ''Call not found''
           | Some call \<Rightarrow>
              (let call1 = call\<lparr>participants := joinParticipant userId now (participants call) (participants call)\<rparr>;
                   call2 = (if status call = INITIATED
                            then call1\<lparr>status := ONGOING, startedAt := Some now\<rparr>
                            else call1);
                   s1 = s\<lparr>calls := (calls s)(dto_callId dto \<mapsto> call2)\<rparr>;
                   s2 = setCallSocket s1 (dto_callId dto) userId (sid client);
                   s3 = clearRingTimeout s2 (dto_callId dto);
                   s4 = notifyOther s3 call userId CALL_ACCEPT
                          (successResponse (CallUserData (dto_callId dto) userId) None)
               in (successResponse (CallUserData (dto_callId dto) userId) (Some ''Call accepted''),
                   s4))))"
proof (cases "data_userId client")
  case None
  then show ?thesis by (simp add: acceptCall_def segment_defs)
next
  case (Some userId)
  show ?thesis
  proof (cases "userId = []")
    case True
    then show ?thesis using Some by (simp add: acceptCall_def segment_defs)
  next
    case False
    then show ?thesis
      using Some
      by (cases "calls s (dto_callId dto)") (simp_all add: acceptCall_def segment_defs Let_def)
  qed
qed

lemma rejectCall_eq:
  "rejectCall s client dto now =
     (case data_userId client of
        None \<Rightarrow> emitError s client ''Unauthorized''
      | Some userId \<Rightarrow>
         if userId = [] then emitError s client ''Unauthorized''
         else
          (case calls s (dto_callId dto) of
             None \<Rightarrow> emitError s client ''Call not found''
           | Some call \<Rightarrow>
              (let call1 = call\<lparr>participants :=
                             map (\<lambda>p. if p_userId p = Some userId
                                      then p\<lparr>p_status := P_MISSED, leftAt := Some now\<rparr>
                                      else p)
                                 (participants call)\<rparr>;
                   call2 = call1\<lparr>status := MISSED, endedAt := Some now\<rparr>;
                   s1 = s\<lparr>calls := (calls s)(dto_callId dto \<mapsto> call2)\<rparr>;
                   s2 = clearRingTimeout s1 (dto_callId dto);
                   s3 = dropCallSocketEntry s2 (dto_callId dto);
                   s4 = notifyOther s3 call userId CALL_MISSED
                          (successResponse (CallByData (dto_callId dto) userId) None)
               in (successResponse (CallUserData (dto_callId dto) userId) (Some ''Call rejected''),
                   s4))))"
proof (cases "data_userId client")
  case None
  then show ?thesis by (simp add: rejectCall_def segment_defs)
next
  case (Some userId)
  show ?thesis
  proof (cases "userId = []")
    case True
    then show ?thesis using Some by (simp add: rejectCall_def segment_defs)
  next
    case False
    then show ?thesis
      using Some
      by (cases "calls s (dto_callId dto)") (simp_all add: rejectCall_def segment_defs Let_def)
  qed
qed

lemma endCall_eq:
  "endCall s client dto now =
     (case calls s (dto_callId dto) of
        None \<Rightarrow> handleError ''Failed to end call'' s
      | Some call0 \<Rightarrow>
         (let call = call0\<lparr>status := ENDED, endedAt := Some now\<rparr>;
              s1 = s\<lparr>calls := (calls s)(dto_callId dto \<mapsto> call)\<rparr>;
              s2 = clearRingTimeout s1 (dto_callId dto);
              s3 = notifyParticipants s2 (call_id call) (participants call);
              s4 = dropCallSocketEntry s3 (dto_callId dto)
          in (successResponse (CallIdData (dto_callId dto)) (Some ''Call ended''), s4)))"
  by (cases "calls s (dto_callId dto)") (simp_all add: endCall_def segment_defs Let_def)

lemma forwardOffer_eq:
  "forwardOffer s client pl =
     (case data_userId client of
        None \<Rightarrow> emitError s client ''Unauthorized''
      | Some from \<Rightarrow>
         if from = [] then emitError s client ''Unauthorized''
         else
          (case calls s (offer_callId pl) of
             None \<Rightarrow> emitError s client ''Call not found''
           | Some call \<Rightarrow>
              (case find (\<lambda>p. p_userId p \<noteq> Some from) (participants call) of
                 None \<Rightarrow> emitError s client ''Recipient not found''
               | Some other \<Rightarrow>
                  if \<not> truthy (p_userId other) then emitError s client ''Recipient not found''
                  else
                   (case p_userId other of
                      None \<Rightarrow> emitError s client ''Recipient not found''
                    | Some otherId \<Rightarrow>
                       (let target = findTargetSocketForRecipient s (call_id call) otherId
                                       (offer_to pl) (Some (sid client))
                        in if \<not> truthy target
                           then emitError s client ''Recipient not available''
                           else
                            (case target of
                               None \<Rightarrow> emitError s client ''Recipient not available''
                             | Some t \<Rightarrow>
                                (let s1 = emitToSocketId s t RTC_OFFER
                                            (successResponse
                                               (SdpData (call_id call) (offer_sdp pl) from) None);
                                     s2 = setCallSocket s1 (call_id call) from (sid client)
                                 in (successResponse (OfferEcho pl) (Some ''Offer forwarded''),
                                     s2))))))))"
proof (cases "data_userId client")
  case None
  then show ?thesis by (simp add: forwardOffer_def forwardOfferStart_def returned_def)
next
  case (Some u)
  then show ?thesis
    by (cases "u = []") (simp_all add: forwardOffer_def forwardOfferStart_def forwardOfferFinish_def returned_def suspended_def)
qed

lemma forwardAnswer_eq:
  "forwardAnswer s client pl =
     (case data_userId client of
        None \<Rightarrow> emitError s client ''Unauthorized''
      | Some from \<Rightarrow>
         if from = [] then emitError s client ''Unauthorized''
         else
          (case calls s (answer_callId pl) of
             None \<Rightarrow> emitError s client ''Call not found''
           | Some call \<Rightarrow>
              (case find (\<lambda>p. p_userId p \<noteq> Some from) (participants call) of
                 None \<Rightarrow> emitError s client ''Recipient not found''
               | Some other \<Rightarrow>
                  if \<not> truthy (p_userId other) then emitError s client ''Recipient not found''
                  else
                   (case p_userId other of
                      None \<Rightarrow> emitError s client ''Recipient not found''
                    | Some otherId \<Rightarrow>
                       (let target = findTargetSocketForRecipient s (call_id call) otherId
                                       (answer_to pl) (Some (sid client))
                        in if \<not> truthy target
                           then emitError s client ''Recipient not available''
                           else
                            (case target of
                               None \<Rightarrow> emitError s client ''Recipient not available''
                             | Some t \<Rightarrow>
                                (let s1 = emitToSocketId s t RTC_ANSWER
                                            (successResponse
                                               (SdpData (call_id call) (answer_sdp pl) from) None);
                                     s2 = setCallSocket s1 (call_id call) from (sid client)
                                 in (successResponse (AnswerEcho pl) (Some ''Answer forwarded''),
                                     s2))))))))"
proof (cases "data_userId client")
  case None
  then show ?thesis by (simp add: forwardAnswer_def forwardAnswerStart_def returned_def)
next
  case (Some u)
  then show ?thesis
    by (cases "u = []") (simp_all add: forwardAnswer_def forwardAnswerStart_def forwardAnswerFinish_def returned_def suspended_def)
qed

lemma forwardCandidate_eq:
  "forwardCandidate s client pl =
     (case data_userId client of
        None \<Rightarrow> emitError s client ''Unauthorized''
      | Some from \<Rightarrow>
         if from = [] then emitError s client ''Unauthorized''
         else
          (case calls s (cand_callId pl) of
             None \<Rightarrow> emitError s client ''Call not found''
           | Some call \<Rightarrow>
              (case find (\<lambda>p. p_userId p \<noteq> Some from) (participants call) of
                 None \<Rightarrow> emitError s client ''Recipient not found''
               | Some other \<Rightarrow>
                  if \<not> truthy (p_userId other) then emitError s client ''Recipient not found''
                  else
                   (case p_userId other of
                      None \<Rightarrow> emitError s client ''Recipient not found''
                    | Some otherId \<Rightarrow>
                       (let target = findTargetSocketForRecipient s (call_id call) otherId
                                       (cand_to pl) (Some (sid client))
                        in if \<not> truthy target
                           then emitError s client ''Recipient not available''
                           else
                            (case target of
                               None \<Rightarrow> emitError s client ''Recipient not available''
                             | Some t \<Rightarrow>
                                (let s1 = emitToSocketId s t RTC_ICE_CANDIDATE
                                            (successResponse
                                               (CandidateData (call_id call) (cand_candidate pl)
                                                  (cand_sdpMid pl) (cand_sdpMLineIndex pl) from)
                                               None);
                                     s2 = setCallSocket s1 (call_id call) from (sid client)
                                 in (successResponse (CandidateEcho pl)
                                       (Some ''Candidate forwarded''),
                                     s2))))))))"
proof (cases "data_userId client")
  case None
  then show ?thesis by (simp add: forwardCandidate_def forwardCandidateStart_def returned_def)
next
  case (Some u)
  then show ?thesis
    by (cases "u = []") (simp_all add: forwardCandidate_def forwardCandidateStart_def forwardCandidateFinish_def returned_def suspended_def)
qed

lemma ringTimeoutFire_eq:
  "ringTimeoutFire s callId now =
     (case ringTimeouts s callId of
        None \<Rightarrow> None
      | Some t \<Rightarrow>
          if fired t \<or> now < due t then None
          else Some
            (let s2 = (case calls s callId of
                         None \<Rightarrow> s
                       | Some call \<Rightarrow>
                           dropCallSocketEntry
                             (s\<lparr>calls := (calls s)(callId \<mapsto>
                                           call\<lparr>status := MISSED, endedAt := Some now\<rparr>)\<rparr>)
                             callId)
             in clearRingTimeout s2 callId))"
  by (cases "calls s callId")
     (auto simp: ringTimeoutFire_def timerStart_def clearRingTimeout_def dropCallSocketEntry_def
           Let_def split: option.splits)

section \<open>The router\<close>

lemma excluded_not_active:
  "e \<notin> set (getActiveSocketIdsForUser r u (Some e))"
  by (auto simp: getActiveSocketIdsForUser_def split: option.splits)

text \<open>
  C10. Whatever the call, the recipient and the hint, the connection the router
  returns is never the excluded connection, when one is supplied: the hint tier and
  the any-active tier draw from the active connections without it, and the recorded
  tier compares against it.
\<close>

theorem findTarget_never_excluded:
  "findTargetSocketForRecipient s callId recipient hint (Some ex) \<noteq> Some ex"
proof -
  let ?act = "getActiveSocketIdsForUser (clients s) recipient (Some ex)"
  have a: "ex \<notin> set ?act" by (rule excluded_not_active)
  have b: "?act = a # as \<Longrightarrow> a \<noteq> ex" for a as
    using a by auto
  show ?thesis
    using a b
    by (auto simp: findTargetSocketForRecipient_def Let_def
             split: option.splits list.splits if_splits)
qed

lemma registry_sid_nonempty:
  "nonemptyIds s \<Longrightarrow> clients s u = Some socks \<Longrightarrow> c \<in> set socks \<Longrightarrow> sid c \<noteq> []"
  unfolding nonemptyIds_def by blast

lemma connections_sid_nonempty:
  "nonemptyIds s \<Longrightarrow> c \<in> set (connectionsOf (clients s) u) \<Longrightarrow> sid c \<noteq> []"
  by (cases "clients s u") (auto simp: connectionsOf_def dest: registry_sid_nonempty)

lemma recorded_nonempty:
  "nonemptyIds s \<Longrightarrow> callSocketMap s k = Some m \<Longrightarrow> m u \<noteq> Some []"
  by (auto simp: nonemptyIds_def)

lemma active_connections:
  "getActiveSocketIdsForUser r u ex =
     map sid (filter (\<lambda>c. Some (sid c) \<noteq> ex) (connectionsOf r u))"
  by (simp add: getActiveSocketIdsForUser_def connectionsOf_def split: option.splits)

lemma first_of_filtered:
  "(case map f (filter P xs) of [] \<Rightarrow> None | a # as \<Rightarrow> Some a) = map_option f (find P xs)"
  by (induction xs) simp_all

lemma hint_tier:
  assumes "nonemptyIds s"
  shows "(h \<noteq> [] \<and> h \<in> set (getActiveSocketIdsForUser (clients s) u ex)) \<longleftrightarrow>
         (\<exists>c \<in> set (connectionsOf (clients s) u). Some h = Some (sid c) \<and> Some (sid c) \<noteq> ex)"
  using connections_sid_nonempty[OF assms, of _ u]
  by (auto simp: active_connections)

lemma recorded_tier:
  assumes "nonemptyIds s"
  shows "(case callSocketMap s k of
            None \<Rightarrow> None
          | Some m \<Rightarrow>
              (case m u of
                 None \<Rightarrow> None
               | Some rec \<Rightarrow> if rec \<noteq> [] \<and> Some rec \<noteq> ex then Some rec else None)) =
         (let recorded = (case callSocketMap s k of None \<Rightarrow> None | Some m \<Rightarrow> m u)
          in if recorded \<noteq> None \<and> recorded \<noteq> ex then recorded else None)"
  using recorded_nonempty[OF assms, of k _ u]
  by (auto simp: Let_def split: option.splits)

text \<open>
  C4. On a fixed registry and socket map the router is a function of the call, the
  recipient, the hint and the excluded connection, and its result is the one the
  specification's resolution order gives on that registry and that socket map: the
  hint when it is the id of a connection of the recipient other than the excluded
  one, else the recorded route when it differs from the excluded one, else the first
  connection of the recipient other than the excluded one, else nothing. Connection
  identifiers are non-empty strings.
\<close>

theorem findTarget_resolution_order:
  assumes "nonemptyIds s"
  shows "findTargetSocketForRecipient s callId recipient hint exclude =
         resolveTarget (clients s) (callSocketMap s) callId recipient hint exclude"
proof -
  let ?conns = "connectionsOf (clients s) recipient"
  let ?active = "getActiveSocketIdsForUser (clients s) recipient exclude"
  let ?rec = "case callSocketMap s callId of None \<Rightarrow> None | Some m \<Rightarrow> m recipient"
  let ?first = "map_option sid (find (\<lambda>c. Some (sid c) \<noteq> exclude) ?conns)"
  let ?hinted = "\<exists>c \<in> set ?conns. hint = Some (sid c) \<and> Some (sid c) \<noteq> exclude"
  let ?recorded = "case callSocketMap s callId of
            None \<Rightarrow> None
          | Some m \<Rightarrow>
              (case m recipient of
                 None \<Rightarrow> None
               | Some rec \<Rightarrow> if rec \<noteq> [] \<and> Some rec \<noteq> exclude then Some rec else None)"
  have code: "findTargetSocketForRecipient s callId recipient hint exclude =
      (if \<exists>h. hint = Some h \<and> h \<noteq> [] \<and> h \<in> set ?active then hint
       else case ?recorded of
              Some rec \<Rightarrow> Some rec
            | None \<Rightarrow> (case ?active of [] \<Rightarrow> None | a # as \<Rightarrow> Some a))"
    by (cases hint) (simp_all add: findTargetSocketForRecipient_def Let_def)
  have spec: "resolveTarget (clients s) (callSocketMap s) callId recipient hint exclude =
      (if ?hinted then hint
       else if ?rec \<noteq> None \<and> ?rec \<noteq> exclude then ?rec else ?first)"
    by (simp add: resolveTarget_def Let_def)
  have first: "(\<exists>h. hint = Some h \<and> h \<noteq> [] \<and> h \<in> set ?active) \<longleftrightarrow> ?hinted"
  proof (cases hint)
    case None
    then show ?thesis by simp
  next
    case (Some h)
    then show ?thesis
      using hint_tier[OF assms, where h=h and u=recipient and ex=exclude] by simp
  qed
  have second: "?recorded = (if ?rec \<noteq> None \<and> ?rec \<noteq> exclude then ?rec else None)"
    using recorded_tier[OF assms, where k=callId and u=recipient and ex=exclude]
    by (simp add: Let_def)
  have third: "(case ?active of [] \<Rightarrow> None | a # as \<Rightarrow> Some a) = ?first"
    by (simp add: active_connections first_of_filtered)
  have rest: "(case ?recorded of Some rec \<Rightarrow> Some rec
         | None \<Rightarrow> (case ?active of [] \<Rightarrow> None | a # as \<Rightarrow> Some a)) =
        (if ?rec \<noteq> None \<and> ?rec \<noteq> exclude then ?rec else ?first)"
    unfolding second third by (cases ?rec) simp_all
  show ?thesis
    unfolding code spec first rest by (rule refl)
qed

section \<open>The presence registry\<close>

lemma connectionsOf_subscribe:
  "connectionsOf (subscribeClient r v c) u =
     (if v = u then set_add c (connectionsOf r u) else connectionsOf r u)"
  by (simp add: connectionsOf_def subscribeClient_def Let_def split: option.splits)

lemma connectionsOf_unsubscribe:
  "connectionsOf (unsubscribeClient r v c) u =
     (if v = u then set_delete c (connectionsOf r u) else connectionsOf r u)"
  by (simp add: connectionsOf_def unsubscribeClient_def Let_def set_delete_def
           split: option.splits)

lemma noEmptyEntry_step: "noEmptyEntry r \<Longrightarrow> noEmptyEntry (presence_step r e)"
  by (cases e)
     (auto simp: noEmptyEntry_def subscribeClient_def unsubscribeClient_def Let_def set_add_def
           split: option.splits if_splits)

lemma noEmptyEntry_run: "noEmptyEntry r \<Longrightarrow> noEmptyEntry (presence_run r evs)"
  unfolding presence_run_def
  by (induction evs arbitrary: r) (simp_all add: noEmptyEntry_step)

lemma isOnline_connections:
  "noEmptyEntry r \<Longrightarrow> isOnline r u \<longleftrightarrow> connectionsOf r u \<noteq> []"
  by (auto simp: noEmptyEntry_def isOnline_def connectionsOf_def split: option.splits)

lemma set_set_add: "set (set_add c xs) = insert c (set xs)"
  by (auto simp: set_add_def)

lemma set_set_delete: "set (set_delete c xs) = set xs - {c}"
  by (auto simp: set_delete_def)

lemma connections_attached:
  "set (connectionsOf (presence_run r evs) u) = attached (set (connectionsOf r u)) evs u"
  unfolding presence_run_def
proof (induction evs arbitrary: r)
  case Nil
  then show ?case by simp
next
  case (Cons e evs)
  show ?case
  proof (cases e)
    case (Subscribe v c)
    then show ?thesis
      using Cons.IH[of "subscribeClient r v c"]
      by (simp add: connectionsOf_subscribe set_set_add)
  next
    case (Unsubscribe v c)
    then show ?thesis
      using Cons.IH[of "unsubscribeClient r v c"]
      by (simp add: connectionsOf_unsubscribe set_set_delete)
  qed
qed

lemma distinctEntries_step: "distinctEntries r \<Longrightarrow> distinctEntries (presence_step r e)"
  by (cases e)
     (auto simp: distinctEntries_def connectionsOf_subscribe connectionsOf_unsubscribe
                 set_add_def set_delete_def distinct_removeAll)

lemma mset_set_delete:
  "distinct xs \<Longrightarrow> c \<in> set xs \<Longrightarrow> add_mset c (mset (set_delete c xs)) = mset xs"
  by (induction xs) (auto simp: set_delete_def)

lemma lifecycle_balance:
  "distinctEntries r \<Longrightarrow> lifecycle r evs \<Longrightarrow>
   mset (connectionsOf r u) + subscribes evs u =
   mset (connectionsOf (presence_run r evs) u) + unsubscribes evs u"
  unfolding presence_run_def
proof (induction evs arbitrary: r)
  case Nil
  then show ?case by simp
next
  case (Cons e evs)
  have d: "distinctEntries (presence_step r e)"
    using Cons.prems(1) by (rule distinctEntries_step)
  show ?case
  proof (cases e)
    case (Subscribe v c)
    with Cons.prems have l: "lifecycle (subscribeClient r v c) evs"
      and n: "c \<notin> set (connectionsOf r v)" by simp_all
    from Cons.IH[OF _ l] d Subscribe
    have "mset (connectionsOf (subscribeClient r v c) u) + subscribes evs u =
          mset (connectionsOf (foldl presence_step (subscribeClient r v c) evs) u) +
          unsubscribes evs u" by simp
    then show ?thesis
      using Subscribe n by (auto simp: connectionsOf_subscribe set_add_def)
  next
    case (Unsubscribe v c)
    with Cons.prems have l: "lifecycle (unsubscribeClient r v c) evs"
      and n: "c \<in> set (connectionsOf r v)" by simp_all
    have dr: "distinct (connectionsOf r u)"
      using Cons.prems(1) by (simp add: distinctEntries_def)
    from Cons.IH[OF _ l] d Unsubscribe
    have ih: "mset (connectionsOf (unsubscribeClient r v c) u) + subscribes evs u =
          mset (connectionsOf (foldl presence_step (unsubscribeClient r v c) evs) u) +
          unsubscribes evs u" by simp
    show ?thesis
    proof (cases "v = u")
      case True
      have "mset (connectionsOf r u) + subscribes evs u =
            add_mset c (mset (set_delete c (connectionsOf r u)) + subscribes evs u)"
        using mset_set_delete[OF dr] n True by simp
      also have "\<dots> = add_mset c (mset (connectionsOf (foldl presence_step (unsubscribeClient r v c) evs) u) +
          unsubscribes evs u)"
        using ih True by (simp add: connectionsOf_unsubscribe)
      finally show ?thesis using Unsubscribe True by simp
    next
      case False
      then show ?thesis using ih Unsubscribe by (simp add: connectionsOf_unsubscribe)
    qed
  qed
qed

lemma noEmptyEntry_empty: "noEmptyEntry Map.empty"
  by (simp add: noEmptyEntry_def)

lemma distinctEntries_empty: "distinctEntries Map.empty"
  by (simp add: distinctEntries_def connectionsOf_def)

text \<open>
  C6, amended. After any sequence of subscribes and unsubscribes on an empty registry a
  user is online iff the set of its connections, replayed in order with a repeated
  subscribe or unsubscribe of the same pair changing nothing, is non-empty; the
  registry never maps a user to an empty set; and on sequences as the connection
  lifecycle produces them (subscribe only while detached, unsubscribe only while
  attached) the user is online iff the multiset of subscribes minus unsubscribes is
  non-empty.
\<close>

theorem isOnline_iff_attached:
  "(isOnline (presence_run Map.empty evs) u \<longleftrightarrow> attached {} evs u \<noteq> {}) \<and>
   presence_run Map.empty evs u \<noteq> Some [] \<and>
   (lifecycle Map.empty evs \<longrightarrow>
      (isOnline (presence_run Map.empty evs) u \<longleftrightarrow> subscribes evs u - unsubscribes evs u \<noteq> {#}))"
proof -
  let ?r = "presence_run Map.empty evs"
  have ne: "noEmptyEntry ?r"
    by (rule noEmptyEntry_run[OF noEmptyEntry_empty])
  have on: "isOnline ?r u \<longleftrightarrow> connectionsOf ?r u \<noteq> []"
    by (rule isOnline_connections[OF ne])
  have at: "set (connectionsOf ?r u) = attached {} evs u"
    using connections_attached[of Map.empty evs u] by (simp add: connectionsOf_def)
  have p1: "isOnline ?r u \<longleftrightarrow> attached {} evs u \<noteq> {}"
    using on at by (metis set_empty)
  have p2: "?r u \<noteq> Some []"
    using ne by (simp add: noEmptyEntry_def)
  have p3: "isOnline ?r u \<longleftrightarrow> subscribes evs u - unsubscribes evs u \<noteq> {#}"
    if l: "lifecycle Map.empty evs"
  proof -
    have "subscribes evs u = mset (connectionsOf ?r u) + unsubscribes evs u"
      using lifecycle_balance[OF distinctEntries_empty l, of u]
      by (simp add: connectionsOf_def)
    then have "subscribes evs u - unsubscribes evs u = mset (connectionsOf ?r u)"
      by simp
    then show ?thesis using on by simp
  qed
  show ?thesis using p1 p2 p3 by blast
qed

text \<open>
  C6 as stated fails: a connection subscribed twice and unsubscribed once is gone from
  the registry, while the multiset of subscribes minus unsubscribes still holds it.
\<close>

theorem isOnline_multiset_counterexample:
  "\<not> (isOnline (presence_run Map.empty
          [Subscribe ''admin1'' adminSocket, Subscribe ''admin1'' adminSocket, Unsubscribe ''admin1'' adminSocket]) ''admin1''
       \<longleftrightarrow> subscribes [Subscribe ''admin1'' adminSocket, Subscribe ''admin1'' adminSocket, Unsubscribe ''admin1'' adminSocket] ''admin1''
            - unsubscribes [Subscribe ''admin1'' adminSocket, Subscribe ''admin1'' adminSocket, Unsubscribe ''admin1'' adminSocket] ''admin1'' \<noteq> {#})"
  by (simp add: presence_run_def isOnline_def subscribeClient_def unsubscribeClient_def
        set_add_def set_delete_def Let_def adminSocket_def)

section \<open>Frame properties of the operations\<close>

lemma emitToSocketId_frame [simp]:
  "calls (emitToSocketId s a e p) = calls s"
  "conversations (emitToSocketId s a e p) = conversations s"
  "clients (emitToSocketId s a e p) = clients s"
  "callSocketMap (emitToSocketId s a e p) = callSocketMap s"
  "ringTimeouts (emitToSocketId s a e p) = ringTimeouts s"
  "emitted (emitToSocketId s a e p) = emitted s @ [(a, e, p)]"
  by (simp_all add: emitToSocketId_def)

lemma emitError_frame [simp]:
  "fst (emitError s client m) = errorResponse m"
  "calls (snd (emitError s client m)) = calls s"
  "conversations (snd (emitError s client m)) = conversations s"
  "clients (snd (emitError s client m)) = clients s"
  "callSocketMap (snd (emitError s client m)) = callSocketMap s"
  "ringTimeouts (snd (emitError s client m)) = ringTimeouts s"
  "emitted (snd (emitError s client m)) = emitted s @ [(sid client, ERROR, errorResponse m)]"
  by (simp_all add: emitError_def)

lemma handleError_frame [simp]:
  "fst (handleError m s) = errorResponse m"
  "snd (handleError m s) = s"
  by (simp_all add: handleError_def)

lemma notifyPeer_frame [simp]:
  "calls (notifyPeer s c u e p) = calls s"
  "conversations (notifyPeer s c u e p) = conversations s"
  "clients (notifyPeer s c u e p) = clients s"
  "callSocketMap (notifyPeer s c u e p) = callSocketMap s"
  "ringTimeouts (notifyPeer s c u e p) = ringTimeouts s"
  by (simp_all add: notifyPeer_def Let_def split: option.splits)

lemma notifyOther_frame [simp]:
  "calls (notifyOther s call u e p) = calls s"
  "conversations (notifyOther s call u e p) = conversations s"
  "clients (notifyOther s call u e p) = clients s"
  "callSocketMap (notifyOther s call u e p) = callSocketMap s"
  "ringTimeouts (notifyOther s call u e p) = ringTimeouts s"
  by (simp_all add: notifyOther_def split: option.splits)

lemma notifyParticipants_frame [simp]:
  "calls (notifyParticipants s c ps) = calls s"
  "conversations (notifyParticipants s c ps) = conversations s"
  "clients (notifyParticipants s c ps) = clients s"
  "callSocketMap (notifyParticipants s c ps) = callSocketMap s"
  "ringTimeouts (notifyParticipants s c ps) = ringTimeouts s"
  by (induction s c ps rule: notifyParticipants.induct; simp split: option.splits)+

lemma setCallSocket_frame [simp]:
  "calls (setCallSocket s c u k) = calls s"
  "conversations (setCallSocket s c u k) = conversations s"
  "clients (setCallSocket s c u k) = clients s"
  "ringTimeouts (setCallSocket s c u k) = ringTimeouts s"
  "emitted (setCallSocket s c u k) = emitted s"
  by (simp_all add: setCallSocket_def ensureCallSocketEntry_def split: option.splits)

lemma setCallSocket_map:
  "callSocketMap (setCallSocket s c u k) =
     (callSocketMap s)(c \<mapsto> (case callSocketMap s c of None \<Rightarrow> Map.empty | Some m \<Rightarrow> m)(u \<mapsto> k))"
  by (simp add: setCallSocket_def ensureCallSocketEntry_def split: option.splits)

lemma clearRingTimeout_frame [simp]:
  "calls (clearRingTimeout s c) = calls s"
  "conversations (clearRingTimeout s c) = conversations s"
  "clients (clearRingTimeout s c) = clients s"
  "callSocketMap (clearRingTimeout s c) = callSocketMap s"
  "emitted (clearRingTimeout s c) = emitted s"
  by (simp_all add: clearRingTimeout_def split: option.splits)

lemma clearRingTimeout_timers [simp]:
  "ringTimeouts (clearRingTimeout s c) = (ringTimeouts s)(c := None)"
  by (auto simp: clearRingTimeout_def split: option.splits)

lemma dropCallSocketEntry_frame [simp]:
  "calls (dropCallSocketEntry s c) = calls s"
  "conversations (dropCallSocketEntry s c) = conversations s"
  "clients (dropCallSocketEntry s c) = clients s"
  "ringTimeouts (dropCallSocketEntry s c) = ringTimeouts s"
  "emitted (dropCallSocketEntry s c) = emitted s"
  "callSocketMap (dropCallSocketEntry s c) = (callSocketMap s)(c := None)"
  by (simp_all add: dropCallSocketEntry_def)

lemma setRingTimeout_frame [simp]:
  "calls (setRingTimeout s c ms now) = calls s"
  "conversations (setRingTimeout s c ms now) = conversations s"
  "clients (setRingTimeout s c ms now) = clients s"
  "callSocketMap (setRingTimeout s c ms now) = callSocketMap s"
  "emitted (setRingTimeout s c ms now) = emitted s"
  "ringTimeouts (setRingTimeout s c ms now) =
     (ringTimeouts s)(c \<mapsto> \<lparr>due = now + ms, fired = False\<rparr>)"
  by (simp_all add: setRingTimeout_def Let_def)

lemma forwardOffer_frame:
  "calls (snd (forwardOffer s client pl)) = calls s"
  "ringTimeouts (snd (forwardOffer s client pl)) = ringTimeouts s"
  "clients (snd (forwardOffer s client pl)) = clients s"
  "conversations (snd (forwardOffer s client pl)) = conversations s"
  by (simp_all add: forwardOffer_eq Let_def split: option.splits)

lemma forwardAnswer_frame:
  "calls (snd (forwardAnswer s client pl)) = calls s"
  "ringTimeouts (snd (forwardAnswer s client pl)) = ringTimeouts s"
  "clients (snd (forwardAnswer s client pl)) = clients s"
  "conversations (snd (forwardAnswer s client pl)) = conversations s"
  by (simp_all add: forwardAnswer_eq Let_def split: option.splits)

lemma forwardCandidate_frame:
  "calls (snd (forwardCandidate s client pl)) = calls s"
  "ringTimeouts (snd (forwardCandidate s client pl)) = ringTimeouts s"
  "clients (snd (forwardCandidate s client pl)) = clients s"
  "conversations (snd (forwardCandidate s client pl)) = conversations s"
  by (simp_all add: forwardCandidate_eq Let_def split: option.splits)

section \<open>The scenario, evaluated\<close>

lemmas scenario_defs =
  initialState_def exampleConversations_def presence_run_def
  adminSocket_def userSocket_def userSocket2_def anonymousSocket_def call1_def videoCall_def
  subscribeClient_def unsubscribeClient_def set_add_def set_delete_def
  emitError_def handleError_def notifyPeer_def notifyOther_def
  findTargetSocketForRecipient_def getActiveSocketIdsForUser_def
  setRingTimeout_def clearRingTimeout_def emitToSocketId_def
  setCallSocket_def ensureCallSocketEntry_def dropCallSocketEntry_def Let_def

lemma connectedState_eval:
  "connectedState =
     \<lparr>calls = Map.empty, conversations = exampleConversations,
      clients = [''admin1'' \<mapsto> [adminSocket], ''user1'' \<mapsto> [userSocket]],
      callSocketMap = Map.empty, ringTimeouts = Map.empty, emitted = []\<rparr>"
  by (simp add: connectedState_def initialState_def presence_run_def subscribeClient_def
        set_add_def Let_def)

lemma ringingState_eval:
  "ringingState =
     \<lparr>calls =
        [''call1'' \<mapsto>
           \<lparr>call_id = ''call1'', call_conversationId = ''conv1'',
            initiatorId = ''admin1'', call_type = VIDEO, status = INITIATED,
            startedAt = None, endedAt = None,
            participants =
              [\<lparr>p_userId = Some ''admin1'', p_status = P_JOINED, joinedAt = None,
                leftAt = None\<rparr>,
               \<lparr>p_userId = Some ''user1'', p_status = P_MISSED, joinedAt = None,
                leftAt = None\<rparr>]\<rparr>],
      conversations = exampleConversations,
      clients = [''admin1'' \<mapsto> [adminSocket], ''user1'' \<mapsto> [userSocket]],
      callSocketMap = [''call1'' \<mapsto> [''admin1'' \<mapsto> ''sock-a'']],
      ringTimeouts = [''call1'' \<mapsto> \<lparr>due = 31000, fired = False\<rparr>],
      emitted =
        [(''sock-u'', CALL_INCOMING,
          successResponse
            (IncomingData
               \<lparr>call_id = ''call1'', call_conversationId = ''conv1'',
                initiatorId = ''admin1'', call_type = VIDEO, status = INITIATED,
                startedAt = None, endedAt = None,
                participants =
                  [\<lparr>p_userId = Some ''admin1'', p_status = P_JOINED, joinedAt = None,
                    leftAt = None\<rparr>,
                   \<lparr>p_userId = Some ''user1'', p_status = P_MISSED, joinedAt = None,
                    leftAt = None\<rparr>]\<rparr>
               ''admin1'')
            None)]\<rparr>"
  by (simp add: ringingState_def connectedState_eval initiateCall_eq
        exampleConversations_def adminSocket_def userSocket_def videoCall_def
        emitError_def handleError_def notifyPeer_def
        findTargetSocketForRecipient_def getActiveSocketIdsForUser_def
        setRingTimeout_def clearRingTimeout_def emitToSocketId_def Let_def)

lemma ongoingState_eval:
  "ongoingState =
     ringingState
       \<lparr>calls :=
          [''call1'' \<mapsto>
             \<lparr>call_id = ''call1'', call_conversationId = ''conv1'',
              initiatorId = ''admin1'', call_type = VIDEO, status = ONGOING,
              startedAt = Some 2000, endedAt = None,
              participants =
                [\<lparr>p_userId = Some ''admin1'', p_status = P_JOINED, joinedAt = None,
                  leftAt = None\<rparr>,
                 \<lparr>p_userId = Some ''user1'', p_status = P_JOINED, joinedAt = Some 2000,
                  leftAt = None\<rparr>]\<rparr>],
        callSocketMap := [''call1'' \<mapsto> [''admin1'' \<mapsto> ''sock-a'', ''user1'' \<mapsto> ''sock-u'']],
        ringTimeouts := Map.empty,
        emitted := emitted ringingState @
          [(''sock-a'', CALL_ACCEPT, successResponse (CallUserData ''call1'' ''user1'') None)]\<rparr>"
  by (simp add: ongoingState_def ringingState_eval acceptCall_eq joinParticipant_def scenario_defs)

lemma missedState_eval:
  "missedState =
     ringingState
       \<lparr>calls :=
          [''call1'' \<mapsto>
             \<lparr>call_id = ''call1'', call_conversationId = ''conv1'',
              initiatorId = ''admin1'', call_type = VIDEO, status = MISSED,
              startedAt = None, endedAt = Some 2000,
              participants =
                [\<lparr>p_userId = Some ''admin1'', p_status = P_JOINED, joinedAt = None,
                  leftAt = None\<rparr>,
                 \<lparr>p_userId = Some ''user1'', p_status = P_MISSED, joinedAt = None,
                  leftAt = Some 2000\<rparr>]\<rparr>],
        callSocketMap := Map.empty,
        ringTimeouts := Map.empty,
        emitted := emitted ringingState @
          [(''sock-a'', CALL_MISSED, successResponse (CallByData ''call1'' ''user1'') None)]\<rparr>"
  by (simp add: missedState_def ringingState_eval rejectCall_eq scenario_defs)

lemma timedOutState_eval:
  "timedOutState =
     ringingState
       \<lparr>calls :=
          [''call1'' \<mapsto>
             \<lparr>call_id = ''call1'', call_conversationId = ''conv1'',
              initiatorId = ''admin1'', call_type = VIDEO, status = MISSED,
              startedAt = None, endedAt = Some 31000,
              participants =
                [\<lparr>p_userId = Some ''admin1'', p_status = P_JOINED, joinedAt = None,
                  leftAt = None\<rparr>,
                 \<lparr>p_userId = Some ''user1'', p_status = P_MISSED, joinedAt = None,
                  leftAt = None\<rparr>]\<rparr>],
        callSocketMap := Map.empty,
        ringTimeouts := Map.empty\<rparr>"
  by (simp add: timedOutState_def ringingState_eval ringTimeoutFire_eq scenario_defs)

lemmas run_defs =
  sysRun_def idle_def dropAt_def segment_defs timerStart_def scenario_defs

section \<open>Acting without an identity\<close>

lemma unauthorized_guards:
  assumes "\<not> truthy (data_userId client)"
  shows "initiateCall s client idto newId now = emitError s client ''Unauthorized''"
    and "acceptCall s client dto now = emitError s client ''Unauthorized''"
    and "rejectCall s client dto now = emitError s client ''Unauthorized''"
  using assms
  by (cases "data_userId client"; simp add: initiateCall_eq acceptCall_eq rejectCall_eq)+

lemma endCall_ignores_identity:
  "endCall s (client\<lparr>data_userId := u\<rparr>) dto now = endCall s client dto now"
  by (simp add: endCall_eq)

text \<open>
  C2. Initiate, Accept and Reject answer a sender without identity with Unauthorized and
  leave the state alone (\<open>unauthorized_guards\<close>); End has no such check. On
  the ongoing call of the scenario, End from a connection without identity succeeds:
  the call becomes ENDED, its socket map entry is dropped and both parties are told.
\<close>

theorem endCall_without_identity_ends_call:
  "data_userId anonymousSocket = None \<and>
   callStatus ongoingState ''call1'' = Some ONGOING \<and>
   callSocketMap ongoingState ''call1'' \<noteq> None \<and>
   fst (endCall ongoingState anonymousSocket call1 3000) =
     successResponse (CallIdData ''call1'') (Some ''Call ended'') \<and>
   callStatus (snd (endCall ongoingState anonymousSocket call1 3000)) ''call1'' = Some ENDED \<and>
   callSocketMap (snd (endCall ongoingState anonymousSocket call1 3000)) ''call1'' = None \<and>
   emitted (snd (endCall ongoingState anonymousSocket call1 3000)) =
     emitted ongoingState @
       [(''sock-a'', CALL_END, successResponse (CallIdData ''call1'') None),
        (''sock-u'', CALL_END, successResponse (CallIdData ''call1'') None)]"
  by (simp add: callStatus_def ongoingState_eval ringingState_eval endCall_eq scenario_defs)

section \<open>Reject\<close>

lemma markMissed_others:
  "filter (\<lambda>p. p_userId p \<noteq> Some u) (map (\<lambda>p. if p_userId p = Some u then p\<lparr>p_status := P_MISSED, leftAt := Some now\<rparr> else p) ps) =
   filter (\<lambda>p. p_userId p \<noteq> Some u) ps"
  by (induction ps) simp_all

lemma markMissed_keeps_row:
  assumes "Some u \<in> p_userId ` set ps"
  shows "\<exists>p \<in> set (map (\<lambda>p. if p_userId p = Some u then p\<lparr>p_status := P_MISSED, leftAt := Some now\<rparr> else p) ps). p_userId p = Some u"
  using assms by (induction ps) auto

lemma markMissed_rows:
  "\<forall>p \<in> set (map (\<lambda>p. if p_userId p = Some u then p\<lparr>p_status := P_MISSED, leftAt := Some now\<rparr> else p) ps). p_userId p = Some u \<longrightarrow> p_status p = P_MISSED \<and> leftAt p = Some now"
  by auto

text \<open>
  C3. For an existing call and an acting user who is one of its participants, Reject
  sets the call MISSED with the end timestamp and marks every row of the acting user
  MISSED with the leave timestamp, whatever the call's status and the other rows were;
  the other participants' rows are untouched.
\<close>

theorem rejectCall_marks_missed:
  assumes "data_userId client = Some u" and "u \<noteq> []"
    and "calls s (dto_callId dto) = Some call"
    and "Some u \<in> p_userId ` set (participants call)"
  shows "\<exists>call'. calls (snd (rejectCall s client dto now)) (dto_callId dto) = Some call' \<and>
           status call' = MISSED \<and> endedAt call' = Some now \<and>
           (\<exists>p \<in> set (participants call'). p_userId p = Some u) \<and>
           (\<forall>p \<in> set (participants call').
              p_userId p = Some u \<longrightarrow> p_status p = P_MISSED \<and> leftAt p = Some now) \<and>
           filter (\<lambda>p. p_userId p \<noteq> Some u) (participants call') =
           filter (\<lambda>p. p_userId p \<noteq> Some u) (participants call)"
proof -
  let ?ps = "map (\<lambda>p. if p_userId p = Some u
                      then p\<lparr>p_status := P_MISSED, leftAt := Some now\<rparr> else p)
                 (participants call)"
  let ?call' = "call\<lparr>participants := ?ps, status := MISSED, endedAt := Some now\<rparr>"
  have c: "calls (snd (rejectCall s client dto now)) (dto_callId dto) = Some ?call'"
    using assms(1-3) by (simp add: rejectCall_eq Let_def)
  have p: "participants ?call' = ?ps" and st: "status ?call' = MISSED"
    and en: "endedAt ?call' = Some now"
    by simp_all
  show ?thesis
    unfolding c
    apply (rule exI[of _ ?call'])
    apply (intro conjI)
         apply (rule refl)
        apply (rule st)
       apply (rule en)
      apply (unfold p)
      apply (rule markMissed_keeps_row[OF assms(4)])
     apply (rule markMissed_rows)
    apply (rule markMissed_others)
    done
qed

section \<open>Relay to an unreachable recipient\<close>

text \<open>
  C8. When an identified sender forwards an offer, an answer or a candidate on an
  existing call whose other participant is known and the router resolves no connection
  for that participant, the sender is answered and sent the error "Recipient not
  available", nothing is emitted to anyone else, and no other part of the state changes:
  the call table, the registry, the socket map and the timers are as before. No relay
  forward, successful or not, ever writes the call table.
\<close>

theorem forward_unreachable_changes_nothing:
  assumes "data_userId client = Some from" and "from \<noteq> []"
    and "calls s cid = Some call"
    and "find (\<lambda>p. p_userId p \<noteq> Some from) (participants call) = Some other"
    and "p_userId other = Some otherId" and "otherId \<noteq> []"
    and "\<not> truthy (findTargetSocketForRecipient s (call_id call) otherId hint (Some (sid client)))"
  shows "forwardOffer s client \<lparr>offer_callId = cid, offer_sdp = sdp, offer_to = hint\<rparr> =
           (errorResponse ''Recipient not available'',
            s\<lparr>emitted := emitted s @
                 [(sid client, ERROR, errorResponse ''Recipient not available'')]\<rparr>) \<and>
         forwardAnswer s client \<lparr>answer_callId = cid, answer_sdp = sdp, answer_to = hint\<rparr> =
           (errorResponse ''Recipient not available'',
            s\<lparr>emitted := emitted s @
                 [(sid client, ERROR, errorResponse ''Recipient not available'')]\<rparr>) \<and>
         forwardCandidate s client
             \<lparr>cand_callId = cid, cand_candidate = cand, cand_sdpMid = mid,
              cand_sdpMLineIndex = idx, cand_to = hint\<rparr> =
           (errorResponse ''Recipient not available'',
            s\<lparr>emitted := emitted s @
                 [(sid client, ERROR, errorResponse ''Recipient not available'')]\<rparr>) \<and>
         calls (snd (forwardOffer s' client' po)) = calls s' \<and>
         calls (snd (forwardAnswer s' client' pa)) = calls s' \<and>
         calls (snd (forwardCandidate s' client' pc)) = calls s'"
proof -
  have o: "forwardOffer s client \<lparr>offer_callId = cid, offer_sdp = sdp, offer_to = hint\<rparr> =
           emitError s client ''Recipient not available''"
    using assms by (simp add: forwardOffer_eq Let_def)
  have a: "forwardAnswer s client \<lparr>answer_callId = cid, answer_sdp = sdp, answer_to = hint\<rparr> =
           emitError s client ''Recipient not available''"
    using assms by (simp add: forwardAnswer_eq Let_def)
  have c: "forwardCandidate s client
             \<lparr>cand_callId = cid, cand_candidate = cand, cand_sdpMid = mid,
              cand_sdpMLineIndex = idx, cand_to = hint\<rparr> =
           emitError s client ''Recipient not available''"
    using assms by (simp add: forwardCandidate_eq Let_def)
  show ?thesis
    unfolding o a c
    by (simp add: emitError_def forwardOffer_frame forwardAnswer_frame forwardCandidate_frame)
qed

lemma calleeOfflineState_eval:
  "calleeOfflineState = ringingState\<lparr>clients := [''admin1'' \<mapsto> [adminSocket]]\<rparr>"
  by (simp add: calleeOfflineState_def ringingState_eval scenario_defs fun_upd_twist)

theorem forward_unreachable_changes_nothing_witness:
  "data_userId adminSocket = Some ''admin1'' \<and>
   \<not> truthy (findTargetSocketForRecipient calleeOfflineState ''call1'' ''user1'' None
                (Some (sid adminSocket))) \<and>
   forwardOffer calleeOfflineState adminSocket
       \<lparr>offer_callId = ''call1'', offer_sdp = ''v=0'', offer_to = None\<rparr> =
     (errorResponse ''Recipient not available'',
      calleeOfflineState\<lparr>emitted := emitted calleeOfflineState @
           [(''sock-a'', ERROR, errorResponse ''Recipient not available'')]\<rparr>)"
proof -
  let ?call = "\<lparr>call_id = ''call1'', call_conversationId = ''conv1'',
            initiatorId = ''admin1'', call_type = VIDEO, status = INITIATED,
            startedAt = None, endedAt = None,
            participants =
              [\<lparr>p_userId = Some ''admin1'', p_status = P_JOINED, joinedAt = None,
                leftAt = None\<rparr>,
               \<lparr>p_userId = Some ''user1'', p_status = P_MISSED, joinedAt = None,
                leftAt = None\<rparr>]\<rparr>"
  let ?other = "\<lparr>p_userId = Some ''user1'', p_status = P_MISSED, joinedAt = None,
                leftAt = None\<rparr>"
  have h1: "data_userId adminSocket = Some ''admin1''" by (simp add: adminSocket_def)
  have h2: "''admin1'' \<noteq> []" by simp
  have h3: "calls calleeOfflineState ''call1'' = Some ?call"
    by (simp add: calleeOfflineState_eval ringingState_eval)
  have h4: "find (\<lambda>p. p_userId p \<noteq> Some ''admin1'') (participants ?call) = Some ?other"
    by simp
  have h5: "p_userId ?other = Some ''user1''" by simp
  have h6: "''user1'' \<noteq> []" by simp
  have h7: "\<not> truthy (findTargetSocketForRecipient calleeOfflineState (call_id ?call) ''user1''
                None (Some (sid adminSocket)))"
    by (simp add: calleeOfflineState_eval ringingState_eval scenario_defs)
  show ?thesis
    using h1 h7 forward_unreachable_changes_nothing[OF h1 h2 h3 h4 h5 h6 h7, of "''v=0''"]
    by (simp add: adminSocket_def)
qed

section \<open>Reject and the registry at the scenario\<close>

lemma ongoingState_call1:
  "calls ongoingState (dto_callId call1) =
     Some \<lparr>call_id = ''call1'', call_conversationId = ''conv1'',
            initiatorId = ''admin1'', call_type = VIDEO, status = ONGOING,
            startedAt = Some 2000, endedAt = None,
            participants =
              [\<lparr>p_userId = Some ''admin1'', p_status = P_JOINED, joinedAt = None,
                leftAt = None\<rparr>,
               \<lparr>p_userId = Some ''user1'', p_status = P_JOINED, joinedAt = Some 2000,
                leftAt = None\<rparr>]\<rparr>"
  by (simp add: ongoingState_eval call1_def)

theorem rejectCall_marks_missed_witness:
  "data_userId adminSocket = Some ''admin1'' \<and> ''admin1'' \<noteq> [] \<and>
   callStatus ongoingState ''call1'' = Some ONGOING \<and>
   callStatus (snd (rejectCall ongoingState adminSocket call1 5000)) ''call1'' = Some MISSED"
proof -
  have h1: "data_userId adminSocket = Some ''admin1''" by (simp add: adminSocket_def)
  have h2: "''admin1'' \<noteq> []" by simp
  have h4: "Some ''admin1'' \<in> p_userId ` set (participants
     \<lparr>call_id = ''call1'', call_conversationId = ''conv1'',
            initiatorId = ''admin1'', call_type = VIDEO, status = ONGOING,
            startedAt = Some 2000, endedAt = None,
            participants =
              [\<lparr>p_userId = Some ''admin1'', p_status = P_JOINED, joinedAt = None,
                leftAt = None\<rparr>,
               \<lparr>p_userId = Some ''user1'', p_status = P_JOINED, joinedAt = Some 2000,
                leftAt = None\<rparr>]\<rparr>)"
    by simp
  have o: "callStatus ongoingState ''call1'' = Some ONGOING"
    by (simp add: callStatus_def ongoingState_eval)
  show ?thesis
    using h1 o rejectCall_marks_missed[OF h1 h2 ongoingState_call1 h4, of 5000]
    by (auto simp: callStatus_def call1_def)
qed

theorem isOnline_iff_attached_witness:
  "lifecycle Map.empty
     [Subscribe ''admin1'' adminSocket, Subscribe ''user1'' userSocket,
      Unsubscribe ''admin1'' adminSocket] \<and>
   isOnline (presence_run Map.empty
     [Subscribe ''admin1'' adminSocket, Subscribe ''user1'' userSocket,
      Unsubscribe ''admin1'' adminSocket]) ''user1'' \<and>
   subscribes
     [Subscribe ''admin1'' adminSocket, Subscribe ''user1'' userSocket,
      Unsubscribe ''admin1'' adminSocket] ''user1'' -
   unsubscribes
     [Subscribe ''admin1'' adminSocket, Subscribe ''user1'' userSocket,
      Unsubscribe ''admin1'' adminSocket] ''user1'' \<noteq> {#}"
proof -
  have l: "lifecycle Map.empty
     [Subscribe ''admin1'' adminSocket, Subscribe ''user1'' userSocket,
      Unsubscribe ''admin1'' adminSocket]"
    by (simp add: connectionsOf_def subscribeClient_def unsubscribeClient_def set_add_def
          set_delete_def Let_def)
  show ?thesis
    using l isOnline_iff_attached[of
      "[Subscribe ''admin1'' adminSocket, Subscribe ''user1'' userSocket,
        Unsubscribe ''admin1'' adminSocket]" "''user1''"]
    by simp
qed

section \<open>What each step does to the call table\<close>

lemma finish_frames [simp]:
  "calls (snd (initiateFinish s client callerId targetId call now)) = calls s"
  "calls (snd (acceptFinish s client dto u call)) = calls s"
  "calls (snd (rejectFinish s client dto u call)) = calls s"
  "calls (snd (endFinish s client dto call)) = calls s"
  "calls (snd (forwardOfferFinish s client po u callRead)) = calls s"
  "calls (snd (forwardAnswerFinish s client pa u callRead)) = calls s"
  "calls (snd (forwardCandidateFinish s client pc u callRead)) = calls s"
  by (simp_all add: initiateFinish_def acceptFinish_def rejectFinish_def endFinish_def
        forwardOfferFinish_def forwardAnswerFinish_def forwardCandidateFinish_def Let_def
        split: option.splits)

lemma returned_simps [simp]:
  "fst (returned rs) = Inr (fst rs)" "snd (returned rs) = snd rs"
  by (simp_all add: returned_def)

lemma suspended_simps [simp]:
  "fst (suspended t s) = Inl t" "snd (suspended t s) = s"
  by (simp_all add: suspended_def)

lemma initiateCreate_status:
  assumes "calls s c = Some call"
  shows "calls (snd (initiateCreate s client dto newId callerId conv)) c = Some call"
  using assms
  by (auto simp: initiateCreate_def Let_def split: option.splits)

lemma acceptJoin_status:
  assumes "calls s c = Some call"
  shows "\<exists>call'. calls (snd (acceptJoin s client dto u callRead now)) c = Some call' \<and>
           status call' = status call"
  using assms
  by (auto simp: acceptJoin_def split: option.splits)

lemma acceptOngoing_status:
  assumes "calls s c = Some call"
  shows "\<exists>call'. calls (snd (acceptOngoing s client dto u snap now)) c = Some call' \<and>
           (status call' = status call \<or> (dto_callId dto = c \<and> status snap = INITIATED))"
  using assms
  by (auto simp: acceptOngoing_def split: option.splits)

lemma rejectMark_status:
  assumes "calls s c = Some call"
  shows "\<exists>call'. calls (snd (rejectMark s client dto u callRead now)) c = Some call' \<and>
           status call' = status call"
  using assms
  by (auto simp: rejectMark_def split: option.splits)

lemma rejectMiss_status:
  assumes "calls s c = Some call"
  shows "\<exists>call'. calls (snd (rejectMiss s client dto u snap now)) c = Some call' \<and>
           (status call' = status call \<or> status call' = MISSED)"
  using assms
  by (auto simp: rejectMiss_def split: option.splits)

lemma resume_status:
  assumes "calls s c = Some call"
  shows "\<exists>call'. calls (snd (resume s t now)) c = Some call' \<and>
           (status call' = status call \<or> terminal (status call') \<or> staleAccept c t)"
proof (cases t)
  case (InitiateRead client dto newId callerId conv)
  then show ?thesis using initiateCreate_status[OF assms] by simp
next
  case (AcceptRead client dto u callRead)
  then show ?thesis using acceptJoin_status[OF assms, of client dto u callRead now] by auto
next
  case (AcceptJoined client dto u snap)
  then show ?thesis using acceptOngoing_status[OF assms, of client dto u snap now] by auto
next
  case (RejectRead client dto u callRead)
  then show ?thesis using rejectMark_status[OF assms, of client dto u callRead now] by auto
next
  case (RejectMarked client dto u snap)
  then show ?thesis
    using rejectMiss_status[OF assms, of client dto u snap now] by (auto simp: terminal_def)
qed (use assms in simp_all)

lemma resume_stale:
  assumes "fst (resume s t now) = Inl t'" and "staleAccept c t'"
  shows "staleAccept c t"
proof (cases t)
  case (InitiateRead client dto newId callerId conv)
  then show ?thesis
    using assms
    by (auto simp: initiateCreate_def returned_def suspended_def Let_def
          split: option.splits if_splits)
next
  case (AcceptRead client dto u callRead)
  then show ?thesis
    using assms
    by (auto simp: acceptJoin_def returned_def suspended_def split: option.splits)
next
  case (AcceptJoined client dto u snap)
  then show ?thesis
    using assms
    by (auto simp: acceptOngoing_def returned_def suspended_def split: option.splits if_splits)
next
  case (RejectRead client dto u callRead)
  then show ?thesis
    using assms by (auto simp: rejectMark_def returned_def suspended_def split: option.splits)
next
  case (RejectMarked client dto u snap)
  then show ?thesis
    using assms by (auto simp: rejectMiss_def returned_def suspended_def split: option.splits)
qed (use assms in simp_all)

lemma start_status:
  assumes "calls s c = Some call"
  shows "\<exists>call'. calls (snd (start s req now)) c = Some call' \<and>
           (status call' = status call \<or> terminal (status call'))"
proof (cases req)
  case (InitiateReq client dto newId)
  then show ?thesis using assms
    by (auto simp: initiateStart_def split: option.splits)
next
  case (AcceptReq client dto)
  then show ?thesis using assms
    by (auto simp: acceptStart_def split: option.splits)
next
  case (RejectReq client dto)
  then show ?thesis using assms
    by (auto simp: rejectStart_def split: option.splits)
next
  case (EndReq client dto)
  then show ?thesis using assms
    by (auto simp: endStart_def terminal_def Let_def split: option.splits)
next
  case (OfferReq client pl)
  then show ?thesis using assms
    by (auto simp: forwardOfferStart_def split: option.splits)
next
  case (AnswerReq client pl)
  then show ?thesis using assms
    by (auto simp: forwardAnswerStart_def split: option.splits)
next
  case (CandidateReq client pl)
  then show ?thesis using assms
    by (auto simp: forwardCandidateStart_def split: option.splits)
qed

lemma start_stale:
  assumes "fst (start s req now) = Inl t'" and "staleAccept c t'"
  shows "\<exists>call. calls s c = Some call \<and> status call = INITIATED"
proof (cases req)
  case (InitiateReq client dto newId)
  then show ?thesis using assms
    by (auto simp: initiateStart_def returned_def suspended_def split: option.splits if_splits)
next
  case (AcceptReq client dto)
  then show ?thesis using assms
    by (cases "calls s (dto_callId dto)")
       (auto simp: acceptStart_def returned_def suspended_def split: option.splits if_splits)
next
  case (RejectReq client dto)
  then show ?thesis using assms
    by (auto simp: rejectStart_def returned_def suspended_def split: option.splits if_splits)
next
  case (EndReq client dto)
  then show ?thesis using assms
    by (auto simp: endStart_def returned_def suspended_def Let_def split: option.splits)
next
  case (OfferReq client pl)
  then show ?thesis using assms
    by (auto simp: forwardOfferStart_def returned_def suspended_def split: option.splits if_splits)
next
  case (AnswerReq client pl)
  then show ?thesis using assms
    by (auto simp: forwardAnswerStart_def returned_def suspended_def split: option.splits if_splits)
next
  case (CandidateReq client pl)
  then show ?thesis using assms
    by (auto simp: forwardCandidateStart_def returned_def suspended_def
          split: option.splits if_splits)
qed

lemma timerStart_calls:
  "timerStart s k now = Some (cb, s1) \<Longrightarrow> calls s1 = calls s"
  by (auto simp: timerStart_def split: option.splits if_splits)

lemma resumeCallback_status:
  assumes "calls s c = Some call"
  shows "\<exists>call'. calls (snd (resumeCallback s cb)) c = Some call' \<and>
           (status call' = status call \<or> status call' = MISSED)"
  using assms
  by (cases cb) (auto split: option.splits)

lemma list_all_update:
  "list_all P xs \<Longrightarrow> P y \<Longrightarrow> list_all P (xs[i := y])"
  using set_update_subset_insert[of xs i y] by (auto simp: list_all_iff)

lemma list_all_dropAt:
  "list_all P xs \<Longrightarrow> list_all P (dropAt i xs)"
  by (auto simp: list_all_iff dropAt_def dest: in_set_takeD in_set_dropD)

section \<open>Terminal statuses\<close>

lemma settled_step:
  assumes "settled c sys"
  shows "settled c (sysStep sys a)"
proof -
  from assms obtain call where call: "calls (shared sys) c = Some call"
    and tm: "terminal (status call)"
    and ts: "list_all (\<lambda>t. \<not> staleAccept c t) (tasks sys)"
    by (auto simp: settled_def)
  show ?thesis
  proof (cases a)
    case (Invoke req now)
    obtain oc s1 where st: "start (shared sys) req now = (oc, s1)"
      by (cases "start (shared sys) req now")
    from start_status[OF call, of req now] st tm
    have c1: "\<exists>call'. calls s1 c = Some call' \<and> terminal (status call')" by auto
    show ?thesis
    proof (cases oc)
      case (Inl t)
      have "\<not> staleAccept c t"
        using start_stale[of "shared sys" req now t c] st Inl call tm
        by (auto simp: terminal_def)
      then show ?thesis
        using Invoke st Inl c1 ts by (simp add: settled_def)
    next
      case (Inr r)
      then show ?thesis
        using Invoke st c1 ts by (simp add: settled_def)
    qed
  next
    case (Resume i now)
    show ?thesis
    proof (cases "i < length (tasks sys)")
      case False
      then show ?thesis using Resume assms by simp
    next
      case True
      let ?t = "tasks sys ! i"
      have nt: "\<not> staleAccept c ?t"
        using ts True by (simp add: list_all_length)
      obtain oc s1 where rs: "resume (shared sys) ?t now = (oc, s1)"
        by (cases "resume (shared sys) ?t now")
      from resume_status[OF call, of ?t now] rs tm nt
      have c1: "\<exists>call'. calls s1 c = Some call' \<and> terminal (status call')" by auto
      show ?thesis
      proof (cases oc)
        case (Inl t')
        have "\<not> staleAccept c t'"
          using resume_stale[of "shared sys" ?t now t' c] rs Inl nt by auto
        then have "list_all (\<lambda>t. \<not> staleAccept c t) ((tasks sys)[i := t'])"
          using ts by (simp add: list_all_update)
        then show ?thesis
          using Resume True rs Inl c1 by (simp add: settled_def)
      next
        case (Inr r)
        have "list_all (\<lambda>t. \<not> staleAccept c t) (dropAt i (tasks sys))"
          using ts by (rule list_all_dropAt)
        then show ?thesis
          using Resume True rs Inr c1 by (simp add: settled_def)
      qed
    qed
  next
    case (Connection e)
    then show ?thesis using call tm ts by (simp add: settled_def)
  next
    case (TimerFire k now)
    show ?thesis
    proof (cases "timerStart (shared sys) k now")
      case None
      then show ?thesis using TimerFire assms by simp
    next
      case (Some p)
      obtain cb s1 where p: "p = (cb, s1)" by (cases p)
      have "calls s1 = calls (shared sys)"
        using timerStart_calls Some p by blast
      then show ?thesis
        using TimerFire Some p call tm ts by (simp add: settled_def)
    qed
  next
    case (ResumeCallback i)
    show ?thesis
    proof (cases "i < length (callbacks sys)")
      case False
      then show ?thesis using ResumeCallback assms by simp
    next
      case True
      obtain ocb s1 where rc: "resumeCallback (shared sys) (callbacks sys ! i) = (ocb, s1)"
        by (cases "resumeCallback (shared sys) (callbacks sys ! i)")
      from resumeCallback_status[OF call, of "callbacks sys ! i"] rc tm
      have c1: "\<exists>call'. calls s1 c = Some call' \<and> terminal (status call')"
        by (auto simp: terminal_def)
      show ?thesis
        using ResumeCallback True rc c1 ts
        by (cases ocb) (simp_all add: settled_def)
    qed
  qed
qed

lemma settled_run: "settled c sys \<Longrightarrow> settled c (sysRun sys acts)"
  unfolding sysRun_def
  by (induction acts arbitrary: sys) (simp_all add: settled_step)

text \<open>
  C1, amended. Once the status of a call is ENDED or MISSED and no Accept that read
  the call as INITIATED is still suspended short of its status write, the status is
  ENDED or MISSED after every further run of the process, whatever handlers start and
  however their steps interleave: the call never returns to INITIATED or ONGOING. In
  such a run every Accept of the call reads a terminal status and writes none; the
  relay never writes the status; End, Reject and the ring timeout write their own
  terminal status whatever the status was, so ENDED and MISSED can replace each other.
\<close>

theorem terminal_status_stays_terminal:
  assumes "callStatus (shared sys) c = Some st" and "terminal st"
    and "list_all (\<lambda>t. \<not> staleAccept c t) (tasks sys)"
  shows "\<exists>st'. callStatus (shared (sysRun sys acts)) c = Some st' \<and> terminal st'"
proof -
  have "settled c sys"
    using assms by (auto simp: settled_def callStatus_def)
  then have "settled c (sysRun sys acts)" by (rule settled_run)
  then show ?thesis by (auto simp: settled_def callStatus_def)
qed

section \<open>The socket map at termination\<close>

lemma finish_routes:
  "callSocketMap (snd (initiateFinish s client callerId targetId call now)) =
     (callSocketMap s)(call_id call \<mapsto> [callerId \<mapsto> sid client])"
  "callSocketMap (snd (acceptFinish s client dto u call)) =
     (callSocketMap s)(dto_callId dto \<mapsto>
        (case callSocketMap s (dto_callId dto) of None \<Rightarrow> Map.empty | Some m \<Rightarrow> m)
          (u \<mapsto> sid client))"
  "callSocketMap (snd (rejectFinish s client dto u call)) =
     (callSocketMap s)(dto_callId dto := None)"
  "callSocketMap (snd (endFinish s client dto call)) =
     (callSocketMap s)(dto_callId dto := None)"
  by (simp_all add: initiateFinish_def acceptFinish_def rejectFinish_def endFinish_def Let_def
        setCallSocket_map)

lemma forwardFinish_routes:
  "callSocketMap (snd (forwardOfferFinish s client po u None)) = callSocketMap s"
  "callSocketMap (snd (forwardAnswerFinish s client pa u None)) = callSocketMap s"
  "callSocketMap (snd (forwardCandidateFinish s client pc u None)) = callSocketMap s"
  "k \<noteq> call_id call \<Longrightarrow>
   callSocketMap (snd (forwardOfferFinish s client po u (Some call))) k = callSocketMap s k"
  "k \<noteq> call_id call \<Longrightarrow>
   callSocketMap (snd (forwardAnswerFinish s client pa u (Some call))) k = callSocketMap s k"
  "k \<noteq> call_id call \<Longrightarrow>
   callSocketMap (snd (forwardCandidateFinish s client pc u (Some call))) k = callSocketMap s k"
  by (simp_all add: forwardOfferFinish_def forwardAnswerFinish_def forwardCandidateFinish_def
        Let_def setCallSocket_map split: option.splits)

lemma middle_routes [simp]:
  "callSocketMap (snd (initiateCreate s client idto newId callerId conv)) = callSocketMap s"
  "callSocketMap (snd (acceptJoin s client dto u callRead now)) = callSocketMap s"
  "callSocketMap (snd (rejectMark s client dto u callRead now)) = callSocketMap s"
  "callSocketMap (snd (rejectMiss s client dto u call now)) = callSocketMap s"
  by (simp_all add: initiateCreate_def acceptJoin_def rejectMark_def rejectMiss_def Let_def
        split: option.splits)

lemma acceptOngoing_route:
  "dto_callId dto \<noteq> k \<Longrightarrow>
   callSocketMap (snd (acceptOngoing s client dto u call now)) k = callSocketMap s k"
  by (simp add: acceptOngoing_def finish_routes split: option.splits)

lemma resume_route:
  assumes "\<not> routeWriter c t" and "callSocketMap s c = None"
  shows "callSocketMap (snd (resume s t now)) c = None"
proof (cases t)
  case (InitiateCreated client callerId targetId call)
  then show ?thesis using assms by (simp add: finish_routes)
next
  case (AcceptRead client dto u callRead)
  then show ?thesis using assms by simp
next
  case (AcceptJoined client dto u call)
  then show ?thesis using assms by (simp add: acceptOngoing_route)
next
  case (AcceptStarted client dto u call)
  then show ?thesis using assms by (simp add: finish_routes)
next
  case (OfferRead client pl u callRead)
  then show ?thesis using assms by (cases callRead) (auto simp: forwardFinish_routes)
next
  case (AnswerRead client pl u callRead)
  then show ?thesis using assms by (cases callRead) (auto simp: forwardFinish_routes)
next
  case (CandidateRead client pl u callRead)
  then show ?thesis using assms by (cases callRead) (auto simp: forwardFinish_routes)
qed (use assms in \<open>simp_all add: finish_routes\<close>)

lemma resume_writer:
  assumes "fst (resume s t now) = Inl t'" and "routeWriter c t'" and "calls s c \<noteq> None"
  shows "routeWriter c t"
proof (cases t)
  case (InitiateRead client dto newId callerId conv)
  then show ?thesis
    using assms
    by (auto simp: initiateCreate_def returned_def suspended_def Let_def
          split: option.splits if_splits)
next
  case (AcceptRead client dto u callRead)
  then show ?thesis
    using assms
    by (auto simp: acceptJoin_def returned_def suspended_def split: option.splits)
next
  case (AcceptJoined client dto u snap)
  then show ?thesis
    using assms
    by (auto simp: acceptOngoing_def returned_def suspended_def split: option.splits if_splits)
next
  case (RejectRead client dto u callRead)
  then show ?thesis
    using assms by (auto simp: rejectMark_def returned_def suspended_def split: option.splits)
next
  case (RejectMarked client dto u snap)
  then show ?thesis
    using assms by (auto simp: rejectMiss_def returned_def suspended_def split: option.splits)
qed (use assms in simp_all)

lemma start_route [simp]:
  "callSocketMap (snd (start s req now)) = callSocketMap s"
  by (cases req)
     (simp_all add: initiateStart_def acceptStart_def rejectStart_def endStart_def
        forwardOfferStart_def forwardAnswerStart_def forwardCandidateStart_def Let_def
        split: option.splits)

lemma start_writer:
  assumes "fst (start s req now) = Inl t'" and "routeWriter c t'" and "keyedById s"
  shows "routeRequest c (Invoke req now)"
proof (cases req)
  case (InitiateReq client dto newId)
  then show ?thesis using assms
    by (auto simp: initiateStart_def returned_def suspended_def split: option.splits if_splits)
next
  case (AcceptReq client dto)
  then show ?thesis using assms
    by (cases "calls s (dto_callId dto)")
       (auto simp: acceptStart_def returned_def suspended_def split: option.splits if_splits)
next
  case (RejectReq client dto)
  then show ?thesis using assms
    by (auto simp: rejectStart_def returned_def suspended_def split: option.splits if_splits)
next
  case (EndReq client dto)
  then show ?thesis using assms
    by (auto simp: endStart_def returned_def suspended_def Let_def split: option.splits)
next
  case (OfferReq client pl)
  then show ?thesis using assms
    by (cases "calls s (offer_callId pl)")
       (auto simp: forwardOfferStart_def returned_def suspended_def keyedById_def
          split: option.splits if_splits)
next
  case (AnswerReq client pl)
  then show ?thesis using assms
    by (cases "calls s (answer_callId pl)")
       (auto simp: forwardAnswerStart_def returned_def suspended_def keyedById_def
          split: option.splits if_splits)
next
  case (CandidateReq client pl)
  then show ?thesis using assms
    by (cases "calls s (cand_callId pl)")
       (auto simp: forwardCandidateStart_def returned_def suspended_def keyedById_def
          split: option.splits if_splits)
qed

lemma keyedById_update:
  "keyedById s \<Longrightarrow> calls s k = Some row \<Longrightarrow> call_id row' = call_id row \<Longrightarrow>
   calls s' = (calls s)(k \<mapsto> row') \<Longrightarrow> keyedById s'"
  by (auto simp: keyedById_def)

lemma keyedById_same: "keyedById s \<Longrightarrow> calls s' = calls s \<Longrightarrow> keyedById s'"
  by (simp add: keyedById_def)

lemma resume_keyed:
  assumes "keyedById s"
  shows "keyedById (snd (resume s t now))"
proof (cases t)
  case (InitiateRead client dto newId callerId conv)
  then show ?thesis
    using assms
    by (auto simp: initiateCreate_def returned_def suspended_def Let_def keyedById_def
          split: option.splits)
next
  case (AcceptRead client dto u callRead)
  then show ?thesis
    using assms
    by (auto simp: acceptJoin_def returned_def suspended_def keyedById_def
          split: option.splits)
next
  case (AcceptJoined client dto u snap)
  then show ?thesis
    using assms keyedById_same[OF assms, of "snd (acceptFinish s client dto u snap)"]
    by (auto simp: acceptOngoing_def returned_def suspended_def keyedById_def
          split: option.splits)
next
  case (RejectRead client dto u callRead)
  then show ?thesis
    using assms
    by (auto simp: rejectMark_def returned_def suspended_def keyedById_def split: option.splits)
next
  case (RejectMarked client dto u snap)
  then show ?thesis
    using assms
    by (auto simp: rejectMiss_def returned_def suspended_def keyedById_def split: option.splits)
qed (use assms in \<open>simp_all add: keyedById_def\<close>)

lemma start_keyed:
  assumes "keyedById s"
  shows "keyedById (snd (start s req now))"
  using assms
  by (cases req)
     (auto simp: initiateStart_def acceptStart_def rejectStart_def endStart_def
        forwardOfferStart_def forwardAnswerStart_def forwardCandidateStart_def Let_def
        returned_def suspended_def keyedById_def split: option.splits)

lemma resumeCallback_keyed:
  "keyedById s \<Longrightarrow> keyedById (snd (resumeCallback s cb))"
  by (cases cb) (auto simp: keyedById_def split: option.splits)

lemma resumeCallback_route:
  "callSocketMap s c = None \<Longrightarrow> callSocketMap (snd (resumeCallback s cb)) c = None"
  by (cases cb) (auto split: option.splits)

lemma timerStart_frame:
  "timerStart s k now = Some (cb, s1) \<Longrightarrow>
   calls s1 = calls s \<and> callSocketMap s1 = callSocketMap s"
  by (auto simp: timerStart_def split: option.splits if_splits)

lemma routeFree_step:
  assumes "routeFree c sys" and "\<not> routeRequest c a"
  shows "routeFree c (sysStep sys a)"
proof -
  from assms(1) obtain call where call: "calls (shared sys) c = Some call"
    and keyed: "keyedById (shared sys)"
    and none: "callSocketMap (shared sys) c = None"
    and ts: "list_all (\<lambda>t. \<not> routeWriter c t) (tasks sys)"
    by (auto simp: routeFree_def)
  show ?thesis
  proof (cases a)
    case (Invoke req now)
    obtain oc s1 where st: "start (shared sys) req now = (oc, s1)"
      by (cases "start (shared sys) req now")
    from start_status[OF call, of req now] st
    have c1: "calls s1 c \<noteq> None" by auto
    have k1: "keyedById s1"
      using start_keyed[OF keyed, of req now] st by simp
    have m1: "callSocketMap s1 c = None"
      using start_route[of "shared sys" req now] st none by simp
    show ?thesis
    proof (cases oc)
      case (Inl t)
      have "\<not> routeWriter c t"
        using start_writer[of "shared sys" req now t c] st Inl keyed assms(2) Invoke by auto
      then show ?thesis
        using Invoke st Inl c1 k1 m1 ts by (simp add: routeFree_def)
    next
      case (Inr r)
      then show ?thesis
        using Invoke st c1 k1 m1 ts by (simp add: routeFree_def)
    qed
  next
    case (Resume i now)
    show ?thesis
    proof (cases "i < length (tasks sys)")
      case False
      then show ?thesis using Resume assms by simp
    next
      case True
      let ?t = "tasks sys ! i"
      have nt: "\<not> routeWriter c ?t"
        using ts True by (simp add: list_all_length)
      obtain oc s1 where rs: "resume (shared sys) ?t now = (oc, s1)"
        by (cases "resume (shared sys) ?t now")
      from resume_status[OF call, of ?t now] rs
      have c1: "calls s1 c \<noteq> None" by auto
      have k1: "keyedById s1"
        using resume_keyed[OF keyed, of ?t now] rs by simp
      have m1: "callSocketMap s1 c = None"
        using resume_route[OF nt none, of now] rs by simp
      show ?thesis
      proof (cases oc)
        case (Inl t')
        have "\<not> routeWriter c t'"
          using resume_writer[of "shared sys" ?t now t' c] rs Inl nt call by auto
        then have "list_all (\<lambda>t. \<not> routeWriter c t) ((tasks sys)[i := t'])"
          using ts by (simp add: list_all_update)
        then show ?thesis
          using Resume True rs Inl c1 k1 m1 by (simp add: routeFree_def)
      next
        case (Inr r)
        have "list_all (\<lambda>t. \<not> routeWriter c t) (dropAt i (tasks sys))"
          using ts by (rule list_all_dropAt)
        then show ?thesis
          using Resume True rs Inr c1 k1 m1 by (simp add: routeFree_def)
      qed
    qed
  next
    case (Connection e)
    then show ?thesis
      using call keyed none ts by (simp add: routeFree_def keyedById_def)
  next
    case (TimerFire k now)
    show ?thesis
    proof (cases "timerStart (shared sys) k now")
      case None
      then show ?thesis using TimerFire assms by simp
    next
      case (Some p)
      obtain cb s1 where p: "p = (cb, s1)" by (cases p)
      have "calls s1 = calls (shared sys) \<and> callSocketMap s1 = callSocketMap (shared sys)"
        using timerStart_frame Some p by blast
      then show ?thesis
        using TimerFire Some p call keyed none ts by (simp add: routeFree_def keyedById_def)
    qed
  next
    case (ResumeCallback i)
    show ?thesis
    proof (cases "i < length (callbacks sys)")
      case False
      then show ?thesis using ResumeCallback assms by simp
    next
      case True
      obtain ocb s1 where rc: "resumeCallback (shared sys) (callbacks sys ! i) = (ocb, s1)"
        by (cases "resumeCallback (shared sys) (callbacks sys ! i)")
      from resumeCallback_status[OF call, of "callbacks sys ! i"] rc
      have c1: "calls s1 c \<noteq> None" by auto
      have k1: "keyedById s1"
        using resumeCallback_keyed[OF keyed, of "callbacks sys ! i"] rc by simp
      have m1: "callSocketMap s1 c = None"
        using resumeCallback_route[OF none, of "callbacks sys ! i"] rc by simp
      show ?thesis
        using ResumeCallback True rc c1 k1 m1 ts
        by (cases ocb) (simp_all add: routeFree_def)
    qed
  qed
qed

lemma routeFree_run:
  "routeFree c sys \<Longrightarrow> list_all (\<lambda>a. \<not> routeRequest c a) acts \<Longrightarrow>
   routeFree c (sysRun sys acts)"
  unfolding sysRun_def
  by (induction acts arbitrary: sys) (simp_all add: routeFree_step)

lemma termination_alone:
  assumes "calls s (dto_callId dto) = Some call" and "truthy (data_userId client)"
  shows "callStatus (snd (rejectCall s client dto now)) (dto_callId dto) = Some MISSED"
    and "callSocketMap (snd (rejectCall s client dto now)) (dto_callId dto) = None"
    and "callStatus (snd (endCall s client dto now)) (dto_callId dto) = Some ENDED"
    and "callSocketMap (snd (endCall s client dto now)) (dto_callId dto) = None"
    and "ringTimeoutFire s (dto_callId dto) t = Some s1 \<Longrightarrow>
         callStatus s1 (dto_callId dto) = Some MISSED \<and> callSocketMap s1 (dto_callId dto) = None"
proof -
  show "callStatus (snd (rejectCall s client dto now)) (dto_callId dto) = Some MISSED"
    and "callSocketMap (snd (rejectCall s client dto now)) (dto_callId dto) = None"
    using assms
    by (cases "data_userId client"; simp add: rejectCall_eq Let_def callStatus_def)+
  show "callStatus (snd (endCall s client dto now)) (dto_callId dto) = Some ENDED"
    and "callSocketMap (snd (endCall s client dto now)) (dto_callId dto) = None"
    using assms(1) by (simp_all add: endCall_eq Let_def callStatus_def)
  show "ringTimeoutFire s (dto_callId dto) t = Some s1 \<Longrightarrow>
         callStatus s1 (dto_callId dto) = Some MISSED \<and> callSocketMap s1 (dto_callId dto) = None"
    using assms(1)
    by (auto simp: ringTimeoutFire_eq Let_def callStatus_def split: option.splits if_splits)
qed

lemma last_step_drops:
  "callSocketMap (snd (resume s (RejectMissed client dto u snap) now)) (dto_callId dto) = None"
  "callSocketMap (snd (resume s (EndUpdated client dto snap) now)) (dto_callId dto) = None"
  "callSocketMap (snd (resumeCallback s (TimerUpdated c True))) c = None"
  by (simp_all add: finish_routes)

lemma accept_recreates:
  assumes "calls s (dto_callId dto) = Some call" and "truthy (data_userId client)"
  shows "callSocketMap (snd (acceptCall s client dto now)) (dto_callId dto) \<noteq> None"
  using assms
  by (cases "data_userId client") (simp_all add: acceptCall_eq Let_def setCallSocket_map)

lemma last_step_writes:
  "\<exists>m. callSocketMap (snd (resume s (AcceptStarted client dto u snap) now)) (dto_callId dto) =
          Some m \<and> m u = Some (sid client)"
  "status snap \<noteq> INITIATED \<Longrightarrow>
   \<exists>m. callSocketMap (snd (resume s (AcceptJoined client dto u snap) now)) (dto_callId dto) =
          Some m \<and> m u = Some (sid client)"
  by (simp_all add: finish_routes acceptOngoing_def)

lemma forward_writes:
  "fst (resume s (OfferRead client po u (Some snap)) now) =
     Inr (successResponse (OfferEcho po) (Some ''Offer forwarded'')) \<Longrightarrow>
   \<exists>m. callSocketMap (snd (resume s (OfferRead client po u (Some snap)) now)) (call_id snap) =
          Some m \<and> m u = Some (sid client)"
  "fst (resume s (AnswerRead client pa u (Some snap)) now) =
     Inr (successResponse (AnswerEcho pa) (Some ''Answer forwarded'')) \<Longrightarrow>
   \<exists>m. callSocketMap (snd (resume s (AnswerRead client pa u (Some snap)) now)) (call_id snap) =
          Some m \<and> m u = Some (sid client)"
  "fst (resume s (CandidateRead client pc u (Some snap)) now) =
     Inr (successResponse (CandidateEcho pc) (Some ''Candidate forwarded'')) \<Longrightarrow>
   \<exists>m. callSocketMap (snd (resume s (CandidateRead client pc u (Some snap)) now)) (call_id snap) =
          Some m \<and> m u = Some (sid client)"
  by (auto simp: forwardOfferFinish_def forwardAnswerFinish_def forwardCandidateFinish_def
        emitError_def Let_def setCallSocket_map split: option.splits if_splits)

text \<open>
  C9, amended. Reject by an identified user, End, and the ring timeout when it starts,
  each run with nothing in between on an existing call, leave the call terminal and
  without a socket map entry; in any interleaving the last step of each of the three
  deletes the entry. From a state in which the call has no entry and no suspended
  handler is about to write one, the entry stays absent through every run of the
  process, however its steps interleave, in which no Accept of that call and no relay
  forward on it arrives. Accept and a successful relay forward write the entry in
  their last step whatever the status of the call is, so after a terminal status
  they create it again.
\<close>

theorem terminal_transition_drops_entry:
  assumes "calls s (dto_callId dto) = Some call" and "truthy (data_userId client)"
  shows "callStatus (snd (rejectCall s client dto now)) (dto_callId dto) = Some MISSED \<and>
         callSocketMap (snd (rejectCall s client dto now)) (dto_callId dto) = None \<and>
         callStatus (snd (endCall s client dto now)) (dto_callId dto) = Some ENDED \<and>
         callSocketMap (snd (endCall s client dto now)) (dto_callId dto) = None \<and>
         (\<forall>s1. ringTimeoutFire s (dto_callId dto) t = Some s1 \<longrightarrow>
               callStatus s1 (dto_callId dto) = Some MISSED \<and>
               callSocketMap s1 (dto_callId dto) = None) \<and>
         callSocketMap (snd (resume s' (RejectMissed client dto u snap) now)) (dto_callId dto) =
           None \<and>
         callSocketMap (snd (resume s' (EndUpdated client dto snap) now)) (dto_callId dto) =
           None \<and>
         callSocketMap (snd (resumeCallback s' (TimerUpdated (dto_callId dto) True)))
           (dto_callId dto) = None \<and>
         (routeFree (dto_callId dto) sys \<and>
          list_all (\<lambda>a. \<not> routeRequest (dto_callId dto) a) acts \<longrightarrow>
            callSocketMap (shared (sysRun sys acts)) (dto_callId dto) = None) \<and>
         callSocketMap (snd (acceptCall s client dto now)) (dto_callId dto) \<noteq> None \<and>
         (\<exists>m. callSocketMap (snd (resume s' (AcceptStarted client dto u snap) now))
                 (dto_callId dto) = Some m \<and> m u = Some (sid client)) \<and>
         (status snap \<noteq> INITIATED \<longrightarrow>
            (\<exists>m. callSocketMap (snd (resume s' (AcceptJoined client dto u snap) now))
                    (dto_callId dto) = Some m \<and> m u = Some (sid client))) \<and>
         (fst (resume s' (OfferRead client po u (Some snap)) now) =
            Inr (successResponse (OfferEcho po) (Some ''Offer forwarded'')) \<longrightarrow>
            (\<exists>m. callSocketMap (snd (resume s' (OfferRead client po u (Some snap)) now))
                    (call_id snap) = Some m \<and> m u = Some (sid client))) \<and>
         (fst (resume s' (AnswerRead client pa u (Some snap)) now) =
            Inr (successResponse (AnswerEcho pa) (Some ''Answer forwarded'')) \<longrightarrow>
            (\<exists>m. callSocketMap (snd (resume s' (AnswerRead client pa u (Some snap)) now))
                    (call_id snap) = Some m \<and> m u = Some (sid client))) \<and>
         (fst (resume s' (CandidateRead client pc u (Some snap)) now) =
            Inr (successResponse (CandidateEcho pc) (Some ''Candidate forwarded'')) \<longrightarrow>
            (\<exists>m. callSocketMap (snd (resume s' (CandidateRead client pc u (Some snap)) now))
                    (call_id snap) = Some m \<and> m u = Some (sid client)))"
proof -
  have free: "routeFree (dto_callId dto) sys \<and>
          list_all (\<lambda>a. \<not> routeRequest (dto_callId dto) a) acts \<longrightarrow>
            callSocketMap (shared (sysRun sys acts)) (dto_callId dto) = None"
    using routeFree_run[of "dto_callId dto" sys acts] by (simp add: routeFree_def)
  show ?thesis
    using termination_alone[OF assms] last_step_drops free accept_recreates[OF assms]
      last_step_writes forward_writes
    by (intro conjI allI impI) blast+
qed

section \<open>Accept\<close>

lemma find_snoc:
  "find P (xs @ [y]) = (case find P xs of None \<Rightarrow> (if P y then Some y else None) | Some x \<Rightarrow> Some x)"
  by (induction xs) simp_all

lemma updateFirst_find:
  "find P xs = Some x \<Longrightarrow> P (f x) \<Longrightarrow> find P (updateFirst P f xs) = Some (f x)"
  by (induction xs) (simp_all split: if_splits)

lemma find_Some_holds: "find P xs = Some x \<Longrightarrow> P x"
  by (induction xs) (simp_all split: if_splits)

lemma find_Some_member: "find P xs = Some x \<Longrightarrow> x \<in> set xs"
  by (induction xs) (simp_all split: if_splits)

lemma list_all_updateFirst:
  "list_all Q xs \<Longrightarrow> (\<And>x. Q x \<Longrightarrow> Q (f x)) \<Longrightarrow> list_all Q (updateFirst P f xs)"
  by (induction xs) simp_all

lemma join_allJoined:
  "allJoined u rows \<Longrightarrow> allJoined u (joinParticipant u now seen rows)"
proof (cases "find (\<lambda>p. p_userId p = Some u) seen")
  case None
  then show "allJoined u rows \<Longrightarrow> ?thesis"
    by (simp add: joinParticipant_def allJoined_def)
next
  case (Some x)
  assume a: "allJoined u rows"
  have "list_all (\<lambda>p. p_userId p = Some u \<longrightarrow> p_status p = P_JOINED)
          (updateFirst (\<lambda>p. p_userId p = Some u)
             (\<lambda>p. p\<lparr>p_status := P_JOINED, joinedAt := Some now\<rparr>) rows)"
    using a unfolding allJoined_def by (rule list_all_updateFirst) simp
  then show ?thesis using Some by (simp add: joinParticipant_def allJoined_def)
qed

lemma join_joinedRow:
  assumes "rowOf u seen \<noteq> None \<Longrightarrow> rowOf u rows \<noteq> None"
    and "rowOf u seen = None \<Longrightarrow> allJoined u rows"
  shows "joinedRow u (joinParticipant u now seen rows)"
proof (cases "rowOf u seen")
  case None
  then have aj: "allJoined u rows" by (rule assms(2))
  show ?thesis
  proof (cases "rowOf u rows")
    case n: None
    then show ?thesis
      using None by (simp add: joinedRow_def rowOf_def joinParticipant_def find_snoc)
  next
    case (Some q)
    have "q \<in> set rows" and "p_userId q = Some u"
      using Some find_Some_member[of _ rows q] find_Some_holds[of _ rows q]
      by (simp_all add: rowOf_def)
    then have "p_status q = P_JOINED"
      using aj by (simp add: allJoined_def list_all_iff)
    then show ?thesis
      using None Some by (simp add: joinedRow_def rowOf_def joinParticipant_def find_snoc)
  qed
next
  case (Some x)
  then have "rowOf u rows \<noteq> None" using assms(1) by simp
  then obtain q where q: "rowOf u rows = Some q" by blast
  let ?f = "\<lambda>p::CallParticipant. p\<lparr>p_status := P_JOINED, joinedAt := Some now\<rparr>"
  have pq: "p_userId q = Some u"
    using q find_Some_holds[of _ rows q] by (simp add: rowOf_def)
  have "find (\<lambda>p. p_userId p = Some u) (updateFirst (\<lambda>p. p_userId p = Some u) ?f rows) =
        Some (?f q)"
    using q pq by (intro updateFirst_find) (simp_all add: rowOf_def)
  then show ?thesis
    using Some by (simp add: joinedRow_def rowOf_def joinParticipant_def)
qed

lemma joinedRow_rowOf: "joinedRow u rows \<Longrightarrow> rowOf u rows \<noteq> None"
  by (auto simp: joinedRow_def)

lemma in_set_updateD: "x \<in> set (xs[i := y]) \<Longrightarrow> x = y \<or> x \<in> set xs"
  using set_update_subset_insert[of xs i y] by auto

lemma in_set_dropAtD: "x \<in> set (dropAt i xs) \<Longrightarrow> x \<in> set xs"
  by (auto simp: dropAt_def dest: in_set_takeD in_set_dropD)

lemma acceptingI:
  assumes "calls (shared sys) c = Some cur"
    and "status cur = INITIATED \<or> status cur = ONGOING"
    and "\<And>t. t \<in> set (tasks sys) \<Longrightarrow> acceptOf c u t"
    and "status cur = INITIATED \<Longrightarrow> replies sys = []"
    and "\<And>t. status cur = INITIATED \<Longrightarrow> t \<in> set (tasks sys) \<Longrightarrow> staleAccept c t"
    and "\<And>t. t \<in> set (tasks sys) \<Longrightarrow> sawRow u t \<Longrightarrow> rowOf u (participants cur) \<noteq> None"
    and "\<And>t. t \<in> set (tasks sys) \<Longrightarrow> \<not> sawRow u t \<Longrightarrow> allJoined u (participants cur)"
    and "replies sys \<noteq> [] \<or> (\<exists>t \<in> set (tasks sys). joinedStage t) \<Longrightarrow>
         joinedRow u (participants cur)"
    and "\<And>r. r \<in> set (replies sys) \<Longrightarrow>
         r = successResponse (CallUserData c u) (Some ''Call accepted'')"
  shows "accepting c u sys"
  unfolding accepting_def
  using assms by blast

lemma accepting_invoke:
  assumes "accepting c u sys" and "dto_callId dto = c" and "data_userId client = Some u"
    and "u \<noteq> []"
  shows "accepting c u (sysStep sys (Invoke (AcceptReq client dto) now))"
proof -
  from assms(1) obtain cur where cur: "calls (shared sys) c = Some cur"
    and st: "status cur = INITIATED \<or> status cur = ONGOING"
    and al: "\<forall>t \<in> set (tasks sys). acceptOf c u t"
    and ini: "status cur = INITIATED \<longrightarrow>
           replies sys = [] \<and> (\<forall>t \<in> set (tasks sys). staleAccept c t)"
    and saw: "\<forall>t \<in> set (tasks sys). sawRow u t \<longrightarrow> rowOf u (participants cur) \<noteq> None"
    and nsaw: "\<forall>t \<in> set (tasks sys). \<not> sawRow u t \<longrightarrow> allJoined u (participants cur)"
    and jr: "(replies sys \<noteq> [] \<or> (\<exists>t \<in> set (tasks sys). joinedStage t)) \<longrightarrow>
           joinedRow u (participants cur)"
    and rep: "\<forall>r \<in> set (replies sys).
           r = successResponse (CallUserData c u) (Some ''Call accepted'')"
    unfolding accepting_def by blast
  let ?new = "AcceptRead client dto u (Some cur)"
  have step: "sysStep sys (Invoke (AcceptReq client dto) now) =
              sys\<lparr>shared := shared sys, tasks := tasks sys @ [?new]\<rparr>"
    using assms(2-4) cur by (simp add: acceptStart_def suspended_def)
  have nj: "allJoined u (participants cur)" if "\<not> sawRow u ?new"
  proof -
    from that have "find (\<lambda>p. p_userId p = Some u) (participants cur) = None"
      by (simp add: rowOf_def)
    then have "\<forall>p \<in> set (participants cur). p_userId p \<noteq> Some u"
      by (simp add: find_None_iff)
    then show ?thesis by (simp add: allJoined_def list_all_iff)
  qed
  show ?thesis
    unfolding step
  proof (rule acceptingI[where cur = cur])
    show "calls (shared (sys\<lparr>shared := shared sys, tasks := tasks sys @ [?new]\<rparr>)) c = Some cur"
      using cur by simp
    show "status cur = INITIATED \<or> status cur = ONGOING" by (rule st)
    show "acceptOf c u t"
      if "t \<in> set (tasks (sys\<lparr>shared := shared sys, tasks := tasks sys @ [?new]\<rparr>))" for t
      using that al assms(2) by auto
    show "replies (sys\<lparr>shared := shared sys, tasks := tasks sys @ [?new]\<rparr>) = []"
      if "status cur = INITIATED"
      using that ini by simp
    show "staleAccept c t"
      if "status cur = INITIATED"
        and "t \<in> set (tasks (sys\<lparr>shared := shared sys, tasks := tasks sys @ [?new]\<rparr>))" for t
      using that ini assms(2) by auto
    show "rowOf u (participants cur) \<noteq> None"
      if "t \<in> set (tasks (sys\<lparr>shared := shared sys, tasks := tasks sys @ [?new]\<rparr>))"
        and "sawRow u t" for t
      using that saw by auto
    show "allJoined u (participants cur)"
      if "t \<in> set (tasks (sys\<lparr>shared := shared sys, tasks := tasks sys @ [?new]\<rparr>))"
        and "\<not> sawRow u t" for t
      using that nsaw nj by auto
    show "joinedRow u (participants cur)"
      if "replies (sys\<lparr>shared := shared sys, tasks := tasks sys @ [?new]\<rparr>) \<noteq> [] \<or>
          (\<exists>t \<in> set (tasks (sys\<lparr>shared := shared sys, tasks := tasks sys @ [?new]\<rparr>)).
             joinedStage t)"
      using that jr by auto
    show "r = successResponse (CallUserData c u) (Some ''Call accepted'')"
      if "r \<in> set (replies (sys\<lparr>shared := shared sys, tasks := tasks sys @ [?new]\<rparr>))" for r
      using that rep by simp
  qed
qed

lemma accepting_resume:
  assumes "accepting c u sys"
  shows "accepting c u (sysStep sys (Resume i now))"
proof (cases "i < length (tasks sys)")
  case False
  then show ?thesis using assms by simp
next
  case True
  from assms obtain cur where cur: "calls (shared sys) c = Some cur"
    and st: "status cur = INITIATED \<or> status cur = ONGOING"
    and al: "\<forall>t \<in> set (tasks sys). acceptOf c u t"
    and ini: "status cur = INITIATED \<longrightarrow>
           replies sys = [] \<and> (\<forall>t \<in> set (tasks sys). staleAccept c t)"
    and saw: "\<forall>t \<in> set (tasks sys). sawRow u t \<longrightarrow> rowOf u (participants cur) \<noteq> None"
    and nsaw: "\<forall>t \<in> set (tasks sys). \<not> sawRow u t \<longrightarrow> allJoined u (participants cur)"
    and jr: "(replies sys \<noteq> [] \<or> (\<exists>t \<in> set (tasks sys). joinedStage t)) \<longrightarrow>
           joinedRow u (participants cur)"
    and rep: "\<forall>r \<in> set (replies sys).
           r = successResponse (CallUserData c u) (Some ''Call accepted'')"
    unfolding accepting_def by blast
  let ?t = "tasks sys ! i"
  have mem: "?t \<in> set (tasks sys)" using True by simp
  have acc: "acceptOf c u ?t" using al mem by blast
  define sys' where "sys' = sysStep sys (Resume i now)"
  have finished: "accepting c u sys'"
    if sh: "calls (shared sys') = calls (shared sys)"
      and tk: "tasks sys' = dropAt i (tasks sys)"
      and rp: "replies sys' =
               replies sys @ [successResponse (CallUserData c u) (Some ''Call accepted'')]"
      and js: "joinedStage ?t" and ns: "\<not> staleAccept c ?t"
  proof (rule acceptingI[where cur = cur])
    have on: "status cur \<noteq> INITIATED" using ini mem ns by blast
    show "calls (shared sys') c = Some cur" using sh cur by simp
    show "status cur = INITIATED \<or> status cur = ONGOING" by (rule st)
    show "acceptOf c u t" if "t \<in> set (tasks sys')" for t
      using that tk al in_set_dropAtD by fastforce
    show "replies sys' = []" if "status cur = INITIATED" using that on by simp
    show "staleAccept c t" if "status cur = INITIATED" and "t \<in> set (tasks sys')" for t
      using that on by simp
    show "rowOf u (participants cur) \<noteq> None" if "t \<in> set (tasks sys')" and "sawRow u t" for t
      using that tk saw in_set_dropAtD by fastforce
    show "allJoined u (participants cur)" if "t \<in> set (tasks sys')" and "\<not> sawRow u t" for t
      using that tk nsaw in_set_dropAtD by fastforce
    show "joinedRow u (participants cur)"
      if "replies sys' \<noteq> [] \<or> (\<exists>t \<in> set (tasks sys'). joinedStage t)"
      using jr mem js by blast
    show "r = successResponse (CallUserData c u) (Some ''Call accepted'')"
      if "r \<in> set (replies sys')" for r
      using that rp rep by auto
  qed
  show ?thesis
  proof (cases ?t)
    case (AcceptRead client dto u' callRead)
    with acc obtain snap where cr: "callRead = Some snap" and d: "dto_callId dto = c"
      and uu: "u' = u"
      by (cases callRead) auto
    let ?rows = "joinParticipant u now (participants snap) (participants cur)"
    let ?cur = "cur\<lparr>participants := ?rows\<rparr>"
    let ?new = "AcceptJoined client dto u snap"
    have sh: "calls (shared sys') = (calls (shared sys))(c \<mapsto> ?cur)"
      and tk: "tasks sys' = (tasks sys)[i := ?new]"
      and rp: "replies sys' = replies sys"
      using True AcceptRead cr d uu cur
      by (simp_all add: sys'_def acceptJoin_def suspended_def)
    have sw: "sawRow u ?t = (rowOf u (participants snap) \<noteq> None)"
      using AcceptRead cr by simp
    have jrow: "joinedRow u ?rows"
    proof (rule join_joinedRow)
      show "rowOf u (participants cur) \<noteq> None" if "rowOf u (participants snap) \<noteq> None"
        using that saw mem sw by blast
      show "allJoined u (participants cur)" if "rowOf u (participants snap) = None"
        using that nsaw mem sw by blast
    qed
    have "accepting c u sys'"
    proof (rule acceptingI[where cur = ?cur])
      show "calls (shared sys') c = Some ?cur" using sh by simp
      show "status ?cur = INITIATED \<or> status ?cur = ONGOING" using st by simp
      show "acceptOf c u t" if "t \<in> set (tasks sys')" for t
        using that tk al d in_set_updateD[of t "tasks sys" i ?new] by auto
      show "replies sys' = []" if "status ?cur = INITIATED" using that ini rp by simp
      show "staleAccept c t" if "status ?cur = INITIATED" and "t \<in> set (tasks sys')" for t
      proof -
        from that(1) have i1: "status cur = INITIATED" by simp
        then have "staleAccept c ?t" using ini mem by blast
        then have "staleAccept c ?new" using AcceptRead cr by simp
        then show ?thesis
          using that(2) tk ini i1 in_set_updateD[of t "tasks sys" i ?new] by auto
      qed
      show "rowOf u (participants ?cur) \<noteq> None" if "t \<in> set (tasks sys')" and "sawRow u t" for t
        using jrow joinedRow_rowOf by simp
      show "allJoined u (participants ?cur)" if "t \<in> set (tasks sys')" and "\<not> sawRow u t" for t
      proof -
        have "allJoined u (participants cur)"
        proof (cases "t = ?new")
          case True
          then have "\<not> sawRow u ?t" using that(2) sw by simp
          then show ?thesis using nsaw mem by blast
        next
          case False
          then have "t \<in> set (tasks sys)"
            using that(1) tk in_set_updateD[of t "tasks sys" i ?new] by auto
          then show ?thesis using nsaw that(2) by blast
        qed
        then show ?thesis by (simp add: join_allJoined)
      qed
      show "joinedRow u (participants ?cur)"
        if "replies sys' \<noteq> [] \<or> (\<exists>t \<in> set (tasks sys'). joinedStage t)"
        using jrow by simp
      show "r = successResponse (CallUserData c u) (Some ''Call accepted'')"
        if "r \<in> set (replies sys')" for r
        using that rp rep by simp
    qed
    then show ?thesis by (simp add: sys'_def)
  next
    case (AcceptJoined client dto u' snap)
    with acc have d: "dto_callId dto = c" and uu: "u' = u" by auto
    show ?thesis
    proof (cases "status snap = INITIATED")
      case ini_snap: True
      let ?cur = "cur\<lparr>status := ONGOING, startedAt := Some now\<rparr>"
      let ?new = "AcceptStarted client dto u snap"
      have sh: "calls (shared sys') = (calls (shared sys))(c \<mapsto> ?cur)"
        and tk: "tasks sys' = (tasks sys)[i := ?new]"
        and rp: "replies sys' = replies sys"
        using True AcceptJoined d uu cur ini_snap
        by (simp_all add: sys'_def acceptOngoing_def suspended_def)
      have sw: "sawRow u ?new = sawRow u ?t" using AcceptJoined by simp
      have jrow: "joinedRow u (participants cur)"
        using jr mem AcceptJoined by force
      have "accepting c u sys'"
      proof (rule acceptingI[where cur = ?cur])
        show "calls (shared sys') c = Some ?cur" using sh by simp
        show "status ?cur = INITIATED \<or> status ?cur = ONGOING" by simp
        show "acceptOf c u t" if "t \<in> set (tasks sys')" for t
          using that tk al d in_set_updateD[of t "tasks sys" i ?new] by auto
        show "replies sys' = []" if "status ?cur = INITIATED" using that by simp
        show "staleAccept c t" if "status ?cur = INITIATED" and "t \<in> set (tasks sys')" for t
          using that by simp
        show "rowOf u (participants ?cur) \<noteq> None"
          if "t \<in> set (tasks sys')" and "sawRow u t" for t
          using jrow joinedRow_rowOf by simp
        show "allJoined u (participants ?cur)"
          if "t \<in> set (tasks sys')" and "\<not> sawRow u t" for t
        proof -
          have "allJoined u (participants cur)"
          proof (cases "t = ?new")
            case True
            then have "\<not> sawRow u ?t" using that(2) sw by simp
            then show ?thesis using nsaw mem by blast
          next
            case False
            then have "t \<in> set (tasks sys)"
              using that(1) tk in_set_updateD[of t "tasks sys" i ?new] by auto
            then show ?thesis using nsaw that(2) by blast
          qed
          then show ?thesis by simp
        qed
        show "joinedRow u (participants ?cur)"
          if "replies sys' \<noteq> [] \<or> (\<exists>t \<in> set (tasks sys'). joinedStage t)"
          using jrow by simp
        show "r = successResponse (CallUserData c u) (Some ''Call accepted'')"
          if "r \<in> set (replies sys')" for r
          using that rp rep by simp
      qed
      then show ?thesis by (simp add: sys'_def)
    next
      case False
      obtain r s1 where fin: "acceptFinish (shared sys) client dto u snap = (r, s1)"
        by (cases "acceptFinish (shared sys) client dto u snap")
      have r: "r = successResponse (CallUserData c u) (Some ''Call accepted'')"
        using fin d by (auto simp: acceptFinish_def Let_def)
      have s1: "calls s1 = calls (shared sys)"
        using finish_frames(2)[of "shared sys" client dto u snap] fin by simp
      have "accepting c u sys'"
      proof (rule finished)
        show "calls (shared sys') = calls (shared sys)"
          using True AcceptJoined uu False fin s1
          by (simp add: sys'_def acceptOngoing_def returned_def)
        show "tasks sys' = dropAt i (tasks sys)"
          using True AcceptJoined uu False fin
          by (simp add: sys'_def acceptOngoing_def returned_def)
        show "replies sys' =
               replies sys @ [successResponse (CallUserData c u) (Some ''Call accepted'')]"
          using True AcceptJoined uu False fin r
          by (simp add: sys'_def acceptOngoing_def returned_def)
        show "joinedStage ?t" using AcceptJoined by simp
        show "\<not> staleAccept c ?t" using AcceptJoined False by simp
      qed
      then show ?thesis by (simp add: sys'_def)
    qed
  next
    case (AcceptStarted client dto u' snap)
    with acc have d: "dto_callId dto = c" and uu: "u' = u" by auto
    obtain r s1 where fin: "acceptFinish (shared sys) client dto u snap = (r, s1)"
      by (cases "acceptFinish (shared sys) client dto u snap")
    have r: "r = successResponse (CallUserData c u) (Some ''Call accepted'')"
      using fin d by (auto simp: acceptFinish_def Let_def)
    have s1: "calls s1 = calls (shared sys)"
      using finish_frames(2)[of "shared sys" client dto u snap] fin by simp
    have "accepting c u sys'"
    proof (rule finished)
      show "calls (shared sys') = calls (shared sys)"
        using True AcceptStarted uu fin s1 by (simp add: sys'_def returned_def)
      show "tasks sys' = dropAt i (tasks sys)"
        using True AcceptStarted uu fin by (simp add: sys'_def returned_def)
      show "replies sys' =
             replies sys @ [successResponse (CallUserData c u) (Some ''Call accepted'')]"
        using True AcceptStarted uu fin r by (simp add: sys'_def returned_def)
      show "joinedStage ?t" using AcceptStarted by simp
      show "\<not> staleAccept c ?t" using AcceptStarted by simp
    qed
    then show ?thesis by (simp add: sys'_def)
  qed (use acc in simp_all)
qed

lemma accepting_step:
  assumes "accepting c u sys" and "acceptAction c u a" and "u \<noteq> []"
  shows "accepting c u (sysStep sys a)"
proof (cases a)
  case (Invoke req now)
  then show ?thesis
    using assms accepting_invoke[OF assms(1) _ _ assms(3)]
    by (cases req) simp_all
next
  case (Resume i now)
  then show ?thesis using accepting_resume[OF assms(1)] by simp
qed (use assms(2) in simp_all)

lemma accepting_run:
  "accepting c u sys \<Longrightarrow> list_all (acceptAction c u) acts \<Longrightarrow> u \<noteq> [] \<Longrightarrow>
   accepting c u (sysRun sys acts)"
  unfolding sysRun_def
  by (induction acts arbitrary: sys) (simp_all add: accepting_step)

lemma accepting_idle:
  "calls s c = Some call \<Longrightarrow> status call = INITIATED \<or> status call = ONGOING \<Longrightarrow>
   accepting c u (idle s)"
  by (rule acceptingI[where cur = call]) (simp_all add: idle_def)

lemma accept_keeps_start:
  assumes "status snap \<noteq> INITIATED"
  shows "startOf (snd (resume s (AcceptRead client dto u (Some snap)) now)) k = startOf s k"
    and "startOf (snd (resume s (AcceptJoined client dto u snap) now)) k = startOf s k"
  using assms
  by (auto simp: startOf_def acceptJoin_def acceptOngoing_def split: option.splits)



section \<open>The ring timer against a running Accept\<close>

text \<open>
  C5. Accept, Reject and End clear the ring timer in their last step only, after the
  status write they have awaited, so the timer can come due in between. In the run
  \<open>raceActions\<close> the callee's Accept has written ONGOING and the timer is still
  pending; the timer comes due and its callback marks the call MISSED; the Accept then
  clears the timer entry and returns "Call accepted". When everything has returned the
  accepted call is MISSED.
\<close>

theorem accept_then_timeout_marks_missed:
  "callStatus (shared (sysRun (idle ringingState) (take 3 raceActions))) ''call1'' = Some ONGOING \<and>
   ringTimeouts (shared (sysRun (idle ringingState) (take 3 raceActions))) ''call1'' =
     Some \<lparr>due = 31000, fired = False\<rparr> \<and>
   callStatus (shared (sysRun (idle ringingState) raceActions)) ''call1'' = Some MISSED \<and>
   replies (sysRun (idle ringingState) raceActions) =
     [successResponse (CallUserData ''call1'' ''user1'') (Some ''Call accepted'')] \<and>
   tasks (sysRun (idle ringingState) raceActions) = [] \<and>
   callbacks (sysRun (idle ringingState) raceActions) = []"
  by (simp add: raceActions_def callStatus_def ringingState_eval joinParticipant_def run_defs)

section \<open>The theorems at the scenario\<close>

lemma missedState_status: "callStatus missedState ''call1'' = Some MISSED"
  by (simp add: callStatus_def missedState_eval)

theorem terminal_status_stays_terminal_witness:
  "callStatus (shared (idle missedState)) ''call1'' = Some MISSED \<and> terminal MISSED \<and>
   list_all (\<lambda>t. \<not> staleAccept ''call1'' t) (tasks (idle missedState)) \<and>
   (\<exists>st'. callStatus
            (shared (sysRun (idle missedState)
               [Invoke (AcceptReq userSocket call1) 3000,
                Invoke (EndReq adminSocket call1) 3100,
                Resume 0 3200, Resume 1 3300, Resume 0 3400])) ''call1''
           = Some st' \<and> terminal st')"
proof -
  have s: "callStatus (shared (idle missedState)) ''call1'' = Some MISSED"
    using missedState_status by (simp add: idle_def)
  have t: "terminal MISSED" by (simp add: terminal_def)
  have n: "list_all (\<lambda>t. \<not> staleAccept ''call1'' t) (tasks (idle missedState))"
    by (simp add: idle_def)
  show ?thesis
    using s t n
      terminal_status_stays_terminal[OF s t n,
        of "[Invoke (AcceptReq userSocket call1) 3000,
             Invoke (EndReq adminSocket call1) 3100,
             Resume 0 3200, Resume 1 3300, Resume 0 3400]"]
    by simp
qed

text \<open>
  C1 as stated fails: End on a call that is MISSED changes its status to ENDED.
\<close>

theorem terminal_status_left_counterexample:
  "callStatus missedState ''call1'' = Some MISSED \<and>
   callStatus (snd (endCall missedState adminSocket call1 3000)) ''call1'' = Some ENDED"
  by (simp add: callStatus_def missedState_eval ringingState_eval endCall_eq scenario_defs)

text \<open>The case the amended C1 leaves out: an Accept that read the call as INITIATED
  writes ONGOING after the ring timeout has marked the call MISSED.\<close>

lemma stale_accept_overwrites:
  "callStatus
     (shared (sysRun (idle ringingState)
        [Invoke (AcceptReq userSocket call1) 30900, Resume 0 30950,
         TimerFire ''call1'' 31000, ResumeCallback 0])) ''call1'' = Some MISSED \<and>
   callStatus
     (shared (sysRun (idle ringingState)
        [Invoke (AcceptReq userSocket call1) 30900, Resume 0 30950,
         TimerFire ''call1'' 31000, ResumeCallback 0, Resume 0 31010])) ''call1'' =
     Some ONGOING"
  by (simp add: callStatus_def ringingState_eval joinParticipant_def run_defs)

lemma missedState_keyed: "keyedById missedState"
  by (simp add: keyedById_def missedState_eval ringingState_eval)

lemma ringingState_call1:
  "calls ringingState (dto_callId call1) =
     Some \<lparr>call_id = ''call1'', call_conversationId = ''conv1'',
            initiatorId = ''admin1'', call_type = VIDEO, status = INITIATED,
            startedAt = None, endedAt = None,
            participants =
              [\<lparr>p_userId = Some ''admin1'', p_status = P_JOINED, joinedAt = None,
                leftAt = None\<rparr>,
               \<lparr>p_userId = Some ''user1'', p_status = P_MISSED, joinedAt = None,
                leftAt = None\<rparr>]\<rparr>"
  by (simp add: ringingState_eval call1_def)

theorem terminal_transition_drops_entry_witness:
  "truthy (data_userId userSocket) \<and>
   callSocketMap ringingState ''call1'' \<noteq> None \<and>
   callStatus missedState ''call1'' = Some MISSED \<and>
   callSocketMap missedState ''call1'' = None \<and>
   callStatus timedOutState ''call1'' = Some MISSED \<and>
   callSocketMap timedOutState ''call1'' = None \<and>
   routeFree ''call1'' (idle missedState) \<and>
   callSocketMap
     (shared (sysRun (idle missedState)
        [Invoke (EndReq adminSocket call1) 3000,
         Connection (Unsubscribe ''user1'' userSocket),
         Invoke (RejectReq adminSocket call1) 3100,
         Resume 0 3200, Resume 1 3300])) ''call1'' = None \<and>
   callSocketMap (snd (acceptCall missedState userSocket call1 3000)) ''call1'' \<noteq> None"
proof -
  have u: "truthy (data_userId userSocket)" by (simp add: userSocket_def)
  have m: "callSocketMap ringingState ''call1'' \<noteq> None"
    by (simp add: ringingState_eval)
  have f: "ringTimeoutFire ringingState ''call1'' 31000 = Some timedOutState"
    by (simp add: timedOutState_def ringTimeoutFire_eq ringingState_eval)
  have r: "routeFree ''call1'' (idle missedState)"
    using missedState_keyed by (simp add: routeFree_def idle_def missedState_eval)
  have a: "list_all (\<lambda>a. \<not> routeRequest ''call1'' a)
             [Invoke (EndReq adminSocket call1) 3000,
              Connection (Unsubscribe ''user1'' userSocket),
              Invoke (RejectReq adminSocket call1) 3100,
              Resume 0 3200, Resume 1 3300]"
    by simp
  have c: "calls missedState (dto_callId call1) =
     Some \<lparr>call_id = ''call1'', call_conversationId = ''conv1'',
              initiatorId = ''admin1'', call_type = VIDEO, status = MISSED,
              startedAt = None, endedAt = Some 2000,
              participants =
                [\<lparr>p_userId = Some ''admin1'', p_status = P_JOINED, joinedAt = None,
                  leftAt = None\<rparr>,
                 \<lparr>p_userId = Some ''user1'', p_status = P_MISSED, joinedAt = None,
                  leftAt = Some 2000\<rparr>]\<rparr>"
    by (simp add: missedState_eval call1_def)
  show ?thesis
    using u m f r a
      terminal_transition_drops_entry[OF ringingState_call1 u,
        where now=2000 and t=31000 and sys="idle missedState" and
          acts="[Invoke (EndReq adminSocket call1) 3000,
                 Connection (Unsubscribe ''user1'' userSocket),
                 Invoke (RejectReq adminSocket call1) 3100,
                 Resume 0 3200, Resume 1 3300]"]
      terminal_transition_drops_entry[OF c u, where now=3000]
    by (simp add: missedState_def call1_def)
qed

text \<open>
  C9 as stated fails: in the state reached when the callee accepts after the ring
  timeout has run, the call is MISSED and the socket map holds an entry for it.
\<close>

theorem terminated_call_entry_counterexample:
  "callStatus (shared (sysRun (idle connectedState) lateAcceptActions)) ''call1'' = Some MISSED \<and>
   callSocketMap (shared (sysRun (idle connectedState) lateAcceptActions)) ''call1'' \<noteq> None"
  by (simp add: lateAcceptActions_def callStatus_def connectedState_eval joinParticipant_def
        run_defs)


lemma twoSocketState_eval:
  "twoSocketState =
     ongoingState\<lparr>clients := [''admin1'' \<mapsto> [adminSocket],
                               ''user1'' \<mapsto> [userSocket, userSocket2]]\<rparr>"
  by (simp add: twoSocketState_def ongoingState_eval ringingState_eval scenario_defs)

lemma twoSocketState_nonemptyIds: "nonemptyIds twoSocketState"
  by (auto simp: nonemptyIds_def twoSocketState_eval ongoingState_eval ringingState_eval
        adminSocket_def userSocket_def userSocket2_def split: if_splits)

theorem findTarget_resolution_order_witness:
  "nonemptyIds twoSocketState \<and>
   findTargetSocketForRecipient twoSocketState ''call1'' ''user1'' (Some ''sock-v'')
     (Some ''sock-a'') = Some ''sock-v'' \<and>
   findTargetSocketForRecipient twoSocketState ''call1'' ''user1'' (Some ''sock-gone'')
     (Some ''sock-a'') = Some ''sock-u'' \<and>
   findTargetSocketForRecipient twoSocketState ''call1'' ''user1'' None
     (Some ''sock-u'') = Some ''sock-v'' \<and>
   findTargetSocketForRecipient twoSocketState ''call1'' ''admin1'' None
     (Some ''sock-a'') = None"
  using twoSocketState_nonemptyIds
    findTarget_resolution_order[OF twoSocketState_nonemptyIds,
      of "''call1''" "''user1''" "Some ''sock-v''" "Some ''sock-a''"]
    findTarget_resolution_order[OF twoSocketState_nonemptyIds,
      of "''call1''" "''user1''" "Some ''sock-gone''" "Some ''sock-a''"]
    findTarget_resolution_order[OF twoSocketState_nonemptyIds,
      of "''call1''" "''user1''" None "Some ''sock-u''"]
    findTarget_resolution_order[OF twoSocketState_nonemptyIds,
      of "''call1''" "''admin1''" None "Some ''sock-a''"]
  by (simp add: resolveTarget_def connectionsOf_def twoSocketState_eval ongoingState_eval
        ringingState_eval adminSocket_def userSocket_def userSocket2_def)


end
